theory Spec2Isabelle
  imports Complex_Main "HOL-Library.Word" "HOL-Library.Signed_Division"
begin

unbundle bit_operations_syntax

section \<open>Constants of qnode.cpp\<close>

definition TEST_MOTORS_V :: real where [simp]: "TEST_MOTORS_V = 0.2"
definition TEST_MOTORS_W :: real where [simp]: "TEST_MOTORS_W = pi / 2"
definition TEST_MOTORS_D :: real where [simp]: "TEST_MOTORS_D = 0.4"
definition TEST_MOTORS_A :: real where [simp]: "TEST_MOTORS_A = 1 * pi"
definition TEST_BUMPERS_V :: real where [simp]: "TEST_BUMPERS_V = 0.1"
definition TEST_BUMPERS_W :: real where [simp]: "TEST_BUMPERS_W = pi / 5"
definition TEST_GYRO_W :: real where [simp]: "TEST_GYRO_W = pi / 3"
definition TEST_GYRO_A :: real where [simp]: "TEST_GYRO_A = 2 * pi"

definition MOTOR_MAX_CURRENT :: int where [simp]: "MOTOR_MAX_CURRENT = 24"
definition CLIFF_SENSOR_TESTS :: int where [simp]: "CLIFF_SENSOR_TESTS = 2"
definition WHEEL_DROP_TESTS :: int where [simp]: "WHEEL_DROP_TESTS = 2"
definition POWER_PLUG_TESTS :: int where [simp]: "POWER_PLUG_TESTS = 1"
definition MIN_POWER_CHARGED :: int where [simp]: "MIN_POWER_CHARGED = 2"
definition MEASURE_CHARGE_TIME :: real where [simp]: "MEASURE_CHARGE_TIME = 10"
definition GYRO_CAMERA_MAX_DIFF :: real where [simp]: "GYRO_CAMERA_MAX_DIFF = 0.05"
definition A_INPUT_MIN_THRESHOLD :: int where [simp]: "A_INPUT_MIN_THRESHOLD = 2"
definition A_INPUT_MAX_THRESHOLD :: int where [simp]: "A_INPUT_MAX_THRESHOLD = 4090"

text \<open>The control loop's rate: the constructor sets \<open>frequency(20.0)\<close>.\<close>

definition frequency :: int where [simp]: "frequency = 20"

section \<open>The evaluation steps\<close>

text \<open>
  Modelled from the spec: the enumeration \<open>QNode::EvalStep\<close> is declared in qnode.hpp,
  which is not among the sources. Its members are taken in the order of the spec's step
  families (identification, power-plug, buttons, LEDs, sounds, cliff, wheel-drop, bumpers,
  motors, gyroscope, charging, digital I/O, analog I/O, completion), which is also the
  order of the \<open>switch\<close> in \<open>QNode::run\<close>. A step is its index; \<open>current_step++\<close> is
  \<open>Suc\<close>.
\<close>

type_synonym EvalStep = nat

definition INITIALIZATION :: EvalStep where [simp]: "INITIALIZATION = 0"
definition GET_SERIAL_NUMBER :: EvalStep where [simp]: "GET_SERIAL_NUMBER = 1"
definition TEST_DC_ADAPTER :: EvalStep where [simp]: "TEST_DC_ADAPTER = 2"
definition TEST_DOCKING_BASE :: EvalStep where [simp]: "TEST_DOCKING_BASE = 3"
definition BUTTON_0_PRESSED :: EvalStep where [simp]: "BUTTON_0_PRESSED = 4"
definition BUTTON_0_RELEASED :: EvalStep where [simp]: "BUTTON_0_RELEASED = 5"
definition BUTTON_1_PRESSED :: EvalStep where [simp]: "BUTTON_1_PRESSED = 6"
definition BUTTON_1_RELEASED :: EvalStep where [simp]: "BUTTON_1_RELEASED = 7"
definition BUTTON_2_PRESSED :: EvalStep where [simp]: "BUTTON_2_PRESSED = 8"
definition BUTTON_2_RELEASED :: EvalStep where [simp]: "BUTTON_2_RELEASED = 9"
definition TEST_LEDS :: EvalStep where [simp]: "TEST_LEDS = 10"
definition TEST_SOUNDS :: EvalStep where [simp]: "TEST_SOUNDS = 11"
definition TEST_CLIFF_SENSORS :: EvalStep where [simp]: "TEST_CLIFF_SENSORS = 12"
definition TEST_WHEEL_DROP_SENSORS :: EvalStep where [simp]: "TEST_WHEEL_DROP_SENSORS = 13"
definition CENTER_BUMPER_PRESSED :: EvalStep where [simp]: "CENTER_BUMPER_PRESSED = 14"
definition CENTER_BUMPER_RELEASED :: EvalStep where [simp]: "CENTER_BUMPER_RELEASED = 15"
definition POINT_RIGHT_BUMPER :: EvalStep where [simp]: "POINT_RIGHT_BUMPER = 16"
definition RIGHT_BUMPER_PRESSED :: EvalStep where [simp]: "RIGHT_BUMPER_PRESSED = 17"
definition RIGHT_BUMPER_RELEASED :: EvalStep where [simp]: "RIGHT_BUMPER_RELEASED = 18"
definition POINT_LEFT_BUMPER :: EvalStep where [simp]: "POINT_LEFT_BUMPER = 19"
definition LEFT_BUMPER_PRESSED :: EvalStep where [simp]: "LEFT_BUMPER_PRESSED = 20"
definition LEFT_BUMPER_RELEASED :: EvalStep where [simp]: "LEFT_BUMPER_RELEASED = 21"
definition PREPARE_MOTORS_TEST :: EvalStep where [simp]: "PREPARE_MOTORS_TEST = 22"
definition TEST_MOTORS_FORWARD :: EvalStep where [simp]: "TEST_MOTORS_FORWARD = 23"
definition TEST_MOTORS_BACKWARD :: EvalStep where [simp]: "TEST_MOTORS_BACKWARD = 24"
definition TEST_MOTORS_CLOCKWISE :: EvalStep where [simp]: "TEST_MOTORS_CLOCKWISE = 25"
definition TEST_MOTORS_COUNTERCW :: EvalStep where [simp]: "TEST_MOTORS_COUNTERCW = 26"
definition EVAL_MOTORS_CURRENT :: EvalStep where [simp]: "EVAL_MOTORS_CURRENT = 27"
definition MEASURE_GYRO_ERROR :: EvalStep where [simp]: "MEASURE_GYRO_ERROR = 28"
definition MEASURE_CHARGING :: EvalStep where [simp]: "MEASURE_CHARGING = 29"
definition TEST_DIGITAL_IO_PORTS :: EvalStep where [simp]: "TEST_DIGITAL_IO_PORTS = 30"
definition TEST_ANALOG_INPUT_PORTS :: EvalStep where [simp]: "TEST_ANALOG_INPUT_PORTS = 31"
definition EVALUATION_COMPLETED :: EvalStep where [simp]: "EVALUATION_COMPLETED = 32"

section \<open>The unit record\<close>

text \<open>
  Modelled from the spec: the class \<open>Robot\<close> is declared in robots.hpp, which is not
  among the sources. The device slots are the members of \<open>Robot::Device\<close> that qnode.cpp
  names; \<open>device_ok\<close> is the verified flag and \<open>device_val\<close> the measured value of each
  slot. The measured values are kept as unbounded integers: the counters of the
  protocols stay far below any machine bound.
\<close>

datatype Device =
    V_INFO | IR_DOCK_L | IR_DOCK_C | IR_DOCK_R | IMU_DEV
  | BUTTON_0 | BUTTON_1 | BUTTON_2
  | BUMPER_L | BUMPER_C | BUMPER_R
  | W_DROP_L | W_DROP_R
  | CLIFF_L | CLIFF_C | CLIFF_R
  | PWR_JACK | PWR_DOCK | CHARGING
  | A_INPUT | D_INPUT | D_OUTPUT
  | LED_1 | LED_2 | SOUNDS
  | MOTOR_L | MOTOR_R

text \<open>
  The identification message carries the unit's unique device id, three 32-bit words;
  \<open>std::equal\<close> over the message's range is equality of the ids.
\<close>

type_synonym udid = "32 word \<times> 32 word \<times> 32 word"

text \<open>One row of the analog-channel table, indexed by AI_INC, AI_PRE, AI_MIN, AI_MAX;
  the entries are 16-bit signed values.\<close>

record analog_row =
  AI_INC :: int
  AI_PRE :: int
  AI_MIN :: int
  AI_MAX :: int

record Robot =
  seq_nb :: nat
  serial :: udid
  u_dev_id :: udid
  device_ok :: "Device \<Rightarrow> bool"
  device_val :: "Device \<Rightarrow> int"
  analog_in :: "analog_row list"
  imu_data :: "nat \<Rightarrow> real"
  diagnostics :: string
  state :: int

text \<open>The health states; a message's level is cast to them (OK = 0, WARN = 1, ERROR = 2).\<close>

definition Robot_OK :: int where [simp]: "Robot_OK = 0"

text \<open>
  Modelled from the spec: \<open>Robot::setSerial\<close> (robots.hpp) adopts the message's id as
  the record's identity. The printed form of the serial is not modelled: the serial is
  the id itself.
\<close>

definition setSerial :: "udid \<Rightarrow> Robot \<Rightarrow> Robot" where
  "setSerial u r = r\<lparr>u_dev_id := u, serial := u\<rparr>"

text \<open>
  Modelled from the spec: the family predicates of \<open>Robot\<close> (robots.hpp); a family is
  verified when each of its devices is, and the overall result is the conjunction over
  all device flags.
\<close>

definition buttons_ok :: "Robot \<Rightarrow> bool" where
  "buttons_ok r = (device_ok r BUTTON_0 \<and> device_ok r BUTTON_1 \<and> device_ok r BUTTON_2)"

definition bumpers_ok :: "Robot \<Rightarrow> bool" where
  "bumpers_ok r = (device_ok r BUMPER_L \<and> device_ok r BUMPER_C \<and> device_ok r BUMPER_R)"

definition w_drop_ok :: "Robot \<Rightarrow> bool" where
  "w_drop_ok r = (device_ok r W_DROP_L \<and> device_ok r W_DROP_R)"

definition cliffs_ok :: "Robot \<Rightarrow> bool" where
  "cliffs_ok r = (device_ok r CLIFF_L \<and> device_ok r CLIFF_C \<and> device_ok r CLIFF_R)"

definition pwr_src_ok :: "Robot \<Rightarrow> bool" where
  "pwr_src_ok r = (device_ok r PWR_JACK \<and> device_ok r PWR_DOCK)"

definition ir_dock_ok :: "Robot \<Rightarrow> bool" where
  "ir_dock_ok r = (device_ok r IR_DOCK_L \<and> device_ok r IR_DOCK_C \<and> device_ok r IR_DOCK_R)"

definition motors_ok :: "Robot \<Rightarrow> bool" where
  "motors_ok r = (device_ok r MOTOR_L \<and> device_ok r MOTOR_R)"

definition all_devices :: "Device list" where
  "all_devices =
     [V_INFO, IR_DOCK_L, IR_DOCK_C, IR_DOCK_R, IMU_DEV, BUTTON_0, BUTTON_1, BUTTON_2,
      BUMPER_L, BUMPER_C, BUMPER_R, W_DROP_L, W_DROP_R, CLIFF_L, CLIFF_C, CLIFF_R,
      PWR_JACK, PWR_DOCK, CHARGING, A_INPUT, D_INPUT, D_OUTPUT, LED_1, LED_2, SOUNDS,
      MOTOR_L, MOTOR_R]"

definition all_ok :: "Robot \<Rightarrow> bool" where
  "all_ok r = list_all (device_ok r) all_devices"

text \<open>
  Modelled from the spec: the constructor \<open>Robot(seq_nb)\<close> (robots.hpp). A new record
  has no device verified and every measured value 0; the table has four analog
  channels, whose running minimum and maximum start at the ends of the 16-bit range;
  the health state is not OK until reported.
\<close>

definition new_Robot :: "nat \<Rightarrow> Robot" where
  "new_Robot n =
     \<lparr>seq_nb = n, serial = (0, 0, 0), u_dev_id = (0, 0, 0),
      device_ok = (\<lambda>d. False), device_val = (\<lambda>d. 0),
      analog_in = replicate 4 \<lparr>AI_INC = 0, AI_PRE = 0, AI_MIN = 32767, AI_MAX = - 32768\<rparr>,
      imu_data = (\<lambda>i. 0), diagnostics = [], state = - 1\<rparr>"

text \<open>
  Modelled from the spec: the Evaluated Ledger \<open>evaluated\<close> (a \<open>RobotList\<close> of
  robots.hpp); \<open>get\<close> looks a finalized record up by its serial.
\<close>

definition evaluated_get :: "Robot list \<Rightarrow> udid \<Rightarrow> Robot option" where
  "evaluated_get rs sn = find (\<lambda>r. serial r = sn) rs"

section \<open>What the node sends out, and its state\<close>

datatype LogLevel = Debug | Info | Warn | Error | Fatal

text \<open>
  Every effect on the outside, in the order the code produces it: a log line (its level
  and format string), a user prompt shown or hidden, a velocity command, an LED command
  (which LED, which colour), a sound command, a digital-output command (values and mask), and the resubscription to the latched
  version topic.
\<close>

datatype effect =
    Log LogLevel string
  | ShowUserMsg LogLevel string string
  | HideUserMsg
  | CmdVel real real
  | LedCmd nat nat
  | SoundCmd nat
  | DigitalOutput "bool list" "bool list"
  | Resubscribe

text \<open>
  The members of \<open>QNode\<close> that the callbacks and the loop use. \<open>timer\<close> is the one
  one-shot \<open>ros::Timer\<close> of the node: \<open>Some t\<close> when it was started with period \<open>t\<close> and
  has not fired. \<open>out_file\<close> is the result sink, one row per saved record.
  \<open>previous_step\<close> and \<open>count\<close> are the locals of \<open>run\<close> that live across iterations.
\<close>

record QNode =
  under_test :: "Robot option"
  evaluated :: "Robot list"
  out_file :: "Robot list"
  current_step :: EvalStep
  answer_req :: bool
  timer_active :: bool
  timer :: "real option"
  previous_step :: EvalStep
  count :: int
  outputs :: "effect list"

definition emit :: "effect \<Rightarrow> QNode \<Rightarrow> QNode" where
  "emit x s = s\<lparr>outputs := outputs s @ [x]\<rparr>"

definition log_line :: "LogLevel \<Rightarrow> string \<Rightarrow> QNode \<Rightarrow> QNode" where
  "log_line level format s = emit (Log level format) s"

definition showUserMsg :: "LogLevel \<Rightarrow> string \<Rightarrow> string \<Rightarrow> QNode \<Rightarrow> QNode" where
  "showUserMsg level title format s = emit (ShowUserMsg level title format) s"

definition hideUserMsg :: "QNode \<Rightarrow> QNode" where
  "hideUserMsg s = emit HideUserMsg s"

definition step_pp :: "QNode \<Rightarrow> QNode" where
  "step_pp s = s\<lparr>current_step := Suc (current_step s)\<rparr>"

definition set_robot :: "Robot \<Rightarrow> QNode \<Rightarrow> QNode" where
  "set_robot r s = s\<lparr>under_test := Some r\<rparr>"

text \<open>The state after \<open>QNode::init\<close>.\<close>

definition QNode_init :: QNode where
  "QNode_init =
     \<lparr>under_test = None, evaluated = [], out_file = [], current_step = INITIALIZATION,
      answer_req = False, timer_active = False, timer = None,
      previous_step = INITIALIZATION, count = 0, outputs = []\<rparr>"

section \<open>The scripted motion controller\<close>

text \<open>
  \<open>move(v, w, t = 0, blocking = false)\<close>. The blocking sleep is not modelled (nothing
  arrives during it); the non-blocking branch stops the timer, sets its period and
  starts it, which replaces whatever was pending.
\<close>

definition move :: "real \<Rightarrow> real \<Rightarrow> real \<Rightarrow> bool \<Rightarrow> QNode \<Rightarrow> QNode" where
  "move v w t blocking s =
     (let s1 = emit (CmdVel v w) s in
      if t > 0 then
        (if blocking then emit (CmdVel 0 0) s1
         else s1\<lparr>timer := Some t, timer_active := True\<rparr>)
      else s1)"

definition timerEventCB :: "QNode \<Rightarrow> QNode" where
  "timerEventCB s = move 0 0 0 False ((step_pp s)\<lparr>timer_active := False\<rparr>)"

text \<open>The one-shot timer fires once, when it is armed, and is then idle.\<close>

definition timer_fires :: "QNode \<Rightarrow> QNode" where
  "timer_fires s =
     (case timer s of None \<Rightarrow> s | Some t \<Rightarrow> timerEventCB (s\<lparr>timer := None\<rparr>))"

section \<open>The inbound messages\<close>

text \<open>
  The messages are those of the transport (package kobuki_msgs); only the fields that
  qnode.cpp reads are kept. Small unsigned fields are naturals, raw telemetry bytes are
  words. The named values are the transport's: states are 1 (pressed, dropped, cliff,
  online) and 0 (released, raised, floor, offline), as qnode.cpp itself assumes.
\<close>

definition RELEASED :: nat where [simp]: "RELEASED = 0"
definition PRESSED :: nat where [simp]: "PRESSED = 1"
definition Button0 :: nat where [simp]: "Button0 = 0"
definition Button1 :: nat where [simp]: "Button1 = 1"
definition Button2 :: nat where [simp]: "Button2 = 2"
definition LEFT :: nat where [simp]: "LEFT = 0"
definition RAISED :: nat where [simp]: "RAISED = 0"
definition DROPPED :: nat where [simp]: "DROPPED = 1"
definition CLIFF_LEFT :: nat where [simp]: "CLIFF_LEFT = 0"
definition CLIFF_CENTER :: nat where [simp]: "CLIFF_CENTER = 1"
definition CLIFF_RIGHT :: nat where [simp]: "CLIFF_RIGHT = 2"
definition FLOOR :: nat where [simp]: "FLOOR = 0"
definition CLIFF :: nat where [simp]: "CLIFF = 1"
definition UNPLUGGED :: nat where [simp]: "UNPLUGGED = 0"
definition PLUGGED_TO_ADAPTER :: nat where [simp]: "PLUGGED_TO_ADAPTER = 1"
definition PLUGGED_TO_DOCKBASE :: nat where [simp]: "PLUGGED_TO_DOCKBASE = 2"
definition CHARGE_COMPLETED :: nat where [simp]: "CHARGE_COMPLETED = 3"
definition BATTERY_LOW :: nat where [simp]: "BATTERY_LOW = 4"
definition BATTERY_CRITICAL :: nat where [simp]: "BATTERY_CRITICAL = 5"
definition OFFLINE :: nat where [simp]: "OFFLINE = 0"
definition ONLINE :: nat where [simp]: "ONLINE = 1"
definition Led_BLACK :: nat where [simp]: "Led_BLACK = 0"
definition Led_GREEN :: nat where [simp]: "Led_GREEN = 1"
definition Led_RED :: nat where [simp]: "Led_RED = 3"
definition Sound_ON :: nat where [simp]: "Sound_ON = 0"
definition Sound_CLEANINGEND :: nat where [simp]: "Sound_CLEANINGEND = 6"

datatype VersionInfo =
  VersionInfo (udid: udid) (hardware: nat) (firmware: nat) (software: nat)

text \<open>\<open>current\<close> holds the two motor currents \<open>current[0]\<close> and \<open>current[1]\<close>.\<close>

datatype SensorState =
  SensorState (current: "8 word \<times> 8 word") (charger: "8 word") (battery: "8 word")
    (analog_input: "16 word list")

text \<open>The three readings \<open>data[0]\<close>, \<open>data[1]\<close>, \<open>data[2]\<close> of the docking receiver.\<close>

datatype DockInfraRed = DockInfraRed (data: "nat \<times> nat \<times> nat")

datatype ButtonEvent = ButtonEvent (button: nat) (button_state: nat)

datatype BumperEvent = BumperEvent (bumper: nat) (bumper_state: nat)

datatype WheelDropEvent = WheelDropEvent (wheel: nat) (wheel_state: nat)

datatype CliffEvent = CliffEvent (sensor: nat) (cliff_state: nat)

datatype PowerSystemEvent = PowerSystemEvent (event: nat)

datatype DigitalInputEvent = DigitalInputEvent (input_values: "bool list")

datatype DiagnosticStatus =
  DiagnosticStatus (name: string) (level: nat) (message: string)
    (key_values: "(string \<times> string) list")

datatype RobotStateEvent = RobotStateEvent (robot_state: nat)

section \<open>Helpers on the record\<close>

definition set_ok :: "Device \<Rightarrow> bool \<Rightarrow> Robot \<Rightarrow> Robot" where
  "set_ok d b r = r\<lparr>device_ok := (device_ok r)(d := b)\<rparr>"

definition set_val :: "Device \<Rightarrow> int \<Rightarrow> Robot \<Rightarrow> Robot" where
  "set_val d v r = r\<lparr>device_val := (device_val r)(d := v)\<rparr>"

text \<open>\<open>(Robot::Device)(Robot::BUTTON_0 + n)\<close> and \<open>Robot::BUMPER_L + n\<close>, used where
  \<open>n\<close> is 0, 1 or 2.\<close>

definition button_dev :: "nat \<Rightarrow> Device" where
  "button_dev n = (if n = 0 then BUTTON_0 else if n = 1 then BUTTON_1 else BUTTON_2)"

definition bumper_dev :: "nat \<Rightarrow> Device" where
  "bumper_dev n = (if n = 0 then BUMPER_L else if n = 1 then BUMPER_C else BUMPER_R)"

text \<open>The device that a wheel-drop or cliff event is about, and the power source that
  a step evaluates.\<close>

definition wheel_dev :: "WheelDropEvent \<Rightarrow> Device" where
  "wheel_dev msg = (if wheel msg = LEFT then W_DROP_L else W_DROP_R)"

definition cliff_dev :: "CliffEvent \<Rightarrow> Device" where
  "cliff_dev msg =
     (if sensor msg = CLIFF_LEFT then CLIFF_L
      else if sensor msg = CLIFF_RIGHT then CLIFF_R else CLIFF_C)"

definition power_dev :: "EvalStep \<Rightarrow> Device" where
  "power_dev cs = (if cs = TEST_DC_ADAPTER then PWR_JACK else PWR_DOCK)"

text \<open>The conversion of a value to \<open>int16\<close>.\<close>

definition int16 :: "int \<Rightarrow> int" where
  "int16 x = sint (word_of_int x :: 16 word)"

section \<open>The event callbacks\<close>

definition versionInfoCB :: "VersionInfo \<Rightarrow> QNode \<Rightarrow> QNode" where
  "versionInfoCB msg s =
     (case under_test s of
        None \<Rightarrow> s
      | Some r \<Rightarrow>
          if device_ok r V_INFO \<and> udid msg = u_dev_id r then
            log_line Debug ''Version info received more that once for %s'' s
          else
            let r1 = setSerial (udid msg) r;
                s1 = (if device_ok r V_INFO
                      then log_line Warn ''Overwriting version info: old SN: %s / new SN: %s'' s
                      else s)
            in
              if evaluated_get (evaluated s1) (serial r1) \<noteq> None then
                (showUserMsg Error ''Known robot''
                   ''Robot %s has been previously evaluated. Proceed with a new robot'' s1)
                \<lparr>under_test := None\<rparr>
              else
                let v1 = push_bit 16 (device_val r1 V_INFO OR int (firmware msg));
                    v2 = push_bit 32 (v1 OR int (hardware msg));
                    v3 = v2 OR int (software msg);
                    r2 = set_ok V_INFO True (set_val V_INFO v3 r1)
                in log_line Info ''UDID: %s. Hardware/firmware/software version: %s''
                     (set_robot r2 s1))"

text \<open>
  The loop over the message's analog channels. A channel beyond the table is out of
  range in the source; the model leaves the table as it is there.
\<close>

fun update_analog :: "nat \<Rightarrow> 16 word list \<Rightarrow> analog_row list \<Rightarrow> analog_row list" where
  "update_analog i [] rows = rows"
| "update_analog i (a # as) rows =
     update_analog (Suc i) as
       (if i < length rows then
          rows[i := \<lparr>AI_INC = int16 (uint a - AI_PRE (rows ! i)),
                     AI_PRE = int16 (uint a),
                     AI_MIN = min (AI_MIN (rows ! i)) (int16 (uint a)),
                     AI_MAX = max (AI_MAX (rows ! i)) (int16 (uint a))\<rparr>]
        else rows)"

definition sensorsCoreCB :: "SensorState \<Rightarrow> QNode \<Rightarrow> QNode" where
  "sensorsCoreCB msg s =
     (case under_test s of
        None \<Rightarrow> s
      | Some r \<Rightarrow>
          if current_step s \<ge> TEST_MOTORS_FORWARD \<and> current_step s \<le> TEST_MOTORS_COUNTERCW then
            set_robot
              (set_val MOTOR_R
                 (uint (max (word_of_int (device_val r MOTOR_R) :: 8 word) (snd (current msg))))
                 (set_val MOTOR_L
                    (uint (max (word_of_int (device_val r MOTOR_L) :: 8 word) (fst (current msg))))
                    r)) s
          else if current_step s = MEASURE_CHARGING \<and> charger msg \<noteq> 0 then
            set_robot (set_val CHARGING (uint (battery msg)) r) s
          else if current_step s = TEST_ANALOG_INPUT_PORTS then
            set_robot (r\<lparr>analog_in := update_analog 0 (analog_input msg) (analog_in r)\<rparr>) s
          else s)"

definition dockBeaconCB :: "DockInfraRed \<Rightarrow> QNode \<Rightarrow> QNode" where
  "dockBeaconCB msg s =
     (case under_test s of
        None \<Rightarrow> s
      | Some r \<Rightarrow>
          if ir_dock_ok r then s
          else
            let (d0, d1, d2) = data msg;
                r1 = (if d0 > 0 then set_ok IR_DOCK_L True (set_val IR_DOCK_L (int d0) r) else r);
                r2 = (if d1 > 0 then set_ok IR_DOCK_C True (set_val IR_DOCK_C (int d1) r1) else r1);
                r3 = (if d2 > 0 then set_ok IR_DOCK_R True (set_val IR_DOCK_R (int d2) r2) else r2);
                s1 = set_robot r3 s
            in if ir_dock_ok r3
               then log_line Info ''Docking ir sensor evaluation completed: %d/%d/%d'' s1
               else s1)"

text \<open>The message's orientation is given by its yaw, \<open>tf::getYaw(msg->orientation)\<close>.\<close>

definition gyroscopeCB :: "real \<Rightarrow> QNode \<Rightarrow> QNode" where
  "gyroscopeCB yaw s =
     (case under_test s of
        None \<Rightarrow> s
      | Some r \<Rightarrow> set_robot (r\<lparr>imu_data := (imu_data r)(4 := yaw)\<rparr>) s)"

definition buttonEventCB :: "ButtonEvent \<Rightarrow> QNode \<Rightarrow> QNode" where
  "buttonEventCB msg s =
     (case under_test s of
        None \<Rightarrow> s
      | Some r \<Rightarrow>
          if (current_step s = TEST_LEDS \<or> current_step s = TEST_SOUNDS \<or>
              current_step s = TEST_DIGITAL_IO_PORTS) \<and>
             answer_req s \<and> button_state msg = RELEASED then
            (if button msg = Button0 \<or> button msg = Button2 then
               let ok = (button msg = Button0);
                   r1 = (if current_step s = TEST_LEDS then
                           set_ok LED_2 ok (set_ok LED_1 ok r)
                         else if current_step s = TEST_SOUNDS then
                           set_ok SOUNDS ok r
                         else if current_step s = TEST_DIGITAL_IO_PORTS then
                           set_ok D_OUTPUT ok (set_ok D_INPUT ok r)
                         else r);
                   s1 = set_robot r1 s;
                   s2 = (if button msg = Button0 then log_line Info ''%s evaluation completed'' s1
                         else if button msg = Button2 then log_line Warn ''%s didn't pass the test'' s1
                         else s1)
               in step_pp (hideUserMsg (s2\<lparr>answer_req := False\<rparr>))
             else s)
          else if buttons_ok r then s
          else if current_step s < BUTTON_0_PRESSED \<or> current_step s > BUTTON_2_RELEASED then
            log_line Debug ''Button %d %s; ignoring'' s
          else
            let expected_button = (current_step s - BUTTON_0_PRESSED) div 2;
                expected_action = (current_step s - BUTTON_0_PRESSED) mod 2 XOR 1
            in
              if button msg = expected_button \<and> button_state msg = expected_action then
                let dev = button_dev (button msg);
                    s1 = log_line Info ''Button %d %s, as expected'' s;
                    s2 = (if button_state msg = RELEASED
                          then set_robot (set_ok dev True r) s1 else s1);
                    s3 = (if current_step s = BUTTON_2_RELEASED
                          then log_line Info ''Buttons evaluation completed'' s2 else s2)
                in step_pp s3
              else log_line Warn ''Unexpected button event: %d %s'' s)"

definition bumperEventCB :: "BumperEvent \<Rightarrow> QNode \<Rightarrow> QNode" where
  "bumperEventCB msg s =
     (case under_test s of
        None \<Rightarrow> s
      | Some r \<Rightarrow>
          if bumpers_ok r then s
          else if current_step s < CENTER_BUMPER_PRESSED \<or> current_step s > LEFT_BUMPER_RELEASED then
            log_line Debug ''Bumper %d accidental hit; ignoring'' s
          else
            let expected_bumper = ((current_step s - CENTER_BUMPER_PRESSED) div 3 + 1) mod 3;
                expected_action = (current_step s - CENTER_BUMPER_PRESSED) mod 3 XOR 1
            in
              if bumper msg = expected_bumper \<and> bumper_state msg = expected_action then
                let dev = bumper_dev (bumper msg);
                    s1 = log_line Info ''Bumper %d %s, as expected'' s;
                    r1 = set_val dev (device_val r dev + 1) r;
                    s2 = set_robot r1 s1;
                    s3 = (if bumper_state msg = PRESSED
                          then step_pp (move (- TEST_BUMPERS_V) 0 1.5 False s2)
                          else hideUserMsg (set_robot (set_ok dev True r1) s2))
                in if current_step s3 = LEFT_BUMPER_RELEASED
                   then log_line Info ''Bumper evaluation completed'' s3 else s3
              else log_line Warn ''Unexpected bumper event: %d %s'' s)"

definition wDropEventCB :: "WheelDropEvent \<Rightarrow> QNode \<Rightarrow> QNode" where
  "wDropEventCB msg s =
     (case under_test s of
        None \<Rightarrow> s
      | Some r \<Rightarrow>
          if current_step s \<noteq> TEST_WHEEL_DROP_SENSORS then s
          else
            let dev = wheel_dev msg in
            if device_ok r dev then s
            else if (wheel_state msg = DROPPED \<and> device_val r dev smod 2 = 0) \<or>
                    (wheel_state msg = RAISED \<and> device_val r dev smod 2 = 1) then
              let s1 = log_line Info ''%s wheel %s, as expected'' s;
                  r1 = set_val dev (device_val r dev + 1) r
              in
                if device_val r1 dev \<ge> WHEEL_DROP_TESTS * 2 then
                  let s2 = log_line Info ''%s wheel drop evaluation completed'' s1;
                      r2 = set_ok dev True r1;
                      s3 = set_robot r2 s2
                  in if w_drop_ok r2 then step_pp s3 else s3
                else set_robot r1 s1
            else log_line Warn ''Unexpected wheel drop event: %d, %d'' s)"

definition cliffEventCB :: "CliffEvent \<Rightarrow> QNode \<Rightarrow> QNode" where
  "cliffEventCB msg s =
     (case under_test s of
        None \<Rightarrow> s
      | Some r \<Rightarrow>
          if current_step s \<noteq> TEST_CLIFF_SENSORS then s
          else
            let dev = cliff_dev msg in
            if device_ok r dev then s
            else if (cliff_state msg = CLIFF \<and> device_val r dev smod 2 = 0) \<or>
                    (cliff_state msg = FLOOR \<and> device_val r dev smod 2 = 1) then
              let s1 = log_line Info ''%s cliff sensor reports %s, as expected'' s;
                  r1 = set_val dev (device_val r dev + 1) r
              in
                if device_val r1 dev \<ge> CLIFF_SENSOR_TESTS * 2 then
                  let s2 = log_line Info ''%s cliff sensor evaluation completed'' s1;
                      r2 = set_ok dev True r1;
                      s3 = set_robot r2 s2
                  in if cliffs_ok r2 then step_pp s3 else s3
                else set_robot r1 s1
            else log_line Warn ''Unexpected cliff sensor event: %d, %d'' s)"

definition powerEventCB :: "PowerSystemEvent \<Rightarrow> QNode \<Rightarrow> QNode" where
  "powerEventCB msg s =
     (case under_test s of
        None \<Rightarrow> s
      | Some r \<Rightarrow>
          if pwr_src_ok r then s
          else if current_step s \<noteq> TEST_DC_ADAPTER \<and> current_step s \<noteq> TEST_DOCKING_BASE then
            (if event msg \<noteq> CHARGE_COMPLETED \<and> event msg \<noteq> BATTERY_LOW \<and>
                event msg \<noteq> BATTERY_CRITICAL
             then log_line Warn ''Power event %d while current step is %d'' s else s)
          else
            let dev = power_dev (current_step s) in
            if device_ok r dev then s
            else if (((event msg = PLUGGED_TO_ADAPTER \<and> current_step s = TEST_DC_ADAPTER) \<or>
                      (event msg = PLUGGED_TO_DOCKBASE \<and> current_step s = TEST_DOCKING_BASE)) \<and>
                     device_val r dev smod 2 = 0) \<or>
                    (event msg = UNPLUGGED \<and> device_val r dev smod 2 = 1) then
              let s1 = log_line Info ''%s %s, as expected'' s;
                  r1 = set_val dev (device_val r dev + 1) r
              in
                if device_val r1 dev \<ge> POWER_PLUG_TESTS * 2 then
                  let s2 = log_line Info ''%s plugging evaluation completed'' s1
                  in step_pp (set_robot (set_ok dev True r1) s2)
                else set_robot r1 s1
            else log_line Warn ''Unexpected power event: %d'' s)"

text \<open>The first index of the message whose value is false, if any.\<close>

fun first_false :: "nat \<Rightarrow> bool list \<Rightarrow> nat option" where
  "first_false i [] = None"
| "first_false i (b # bs) = (if \<not> b then Some i else first_false (Suc i) bs)"

text \<open>A command is built with all values and masks false; the arrays have four entries.\<close>

definition inputEventCB :: "DigitalInputEvent \<Rightarrow> QNode \<Rightarrow> QNode" where
  "inputEventCB msg s =
     (case under_test s of
        None \<Rightarrow> s
      | Some r \<Rightarrow>
          if current_step s \<noteq> TEST_DIGITAL_IO_PORTS \<or> device_ok r D_INPUT then s
          else
            (case first_false 0 (input_values msg) of
               Some i \<Rightarrow>
                 emit (DigitalOutput ((replicate 4 False)[i := True]) ((replicate 4 False)[i := True]))
                   (set_robot (set_val D_INPUT (device_val r D_INPUT OR 2 ^ i) r) s)
             | None \<Rightarrow>
                 let s1 = emit (DigitalOutput (replicate 4 False) (replicate 4 True)) s in
                 if device_val r D_INPUT = 15 then
                   (showUserMsg Info ''Digital I/O test''
                      ''Press left function button if LEDs blinked as expected or right otherwise''
                      s1)\<lparr>answer_req := True\<rparr>
                 else s1))"

text \<open>The text that \<open>diagnosticsCB\<close> builds from the message; a level is printed in decimal.\<close>

fun decimal :: "nat \<Rightarrow> string" where
  "decimal n =
     (if n < 10 then [char_of (48 + n)] else decimal (n div 10) @ [char_of (48 + n mod 10)])"

definition endl :: string where
  "endl = [CHR 0x0A]"

definition diagnostics_text :: "DiagnosticStatus list \<Rightarrow> string" where
  "diagnostics_text sts =
     concat (map (\<lambda>st.
        ''Device: '' @ name st @ endl @
        ''Level: '' @ decimal (level st) @ endl @
        ''Message: '' @ message st @ endl @
        concat (map (\<lambda>(k, v). ''   '' @ k @ '': '' @ v @ endl) (key_values st))) sts)"

definition diagnosticsCB :: "DiagnosticStatus list \<Rightarrow> QNode \<Rightarrow> QNode" where
  "diagnosticsCB msg s =
     (case under_test s of
        None \<Rightarrow> s
      | Some r \<Rightarrow> set_robot (r\<lparr>diagnostics := diagnostics_text msg\<rparr>) s)"

definition robotStatusCB :: "DiagnosticStatus \<Rightarrow> QNode \<Rightarrow> QNode" where
  "robotStatusCB msg s =
     (case under_test s of
        None \<Rightarrow> s
      | Some r \<Rightarrow>
          if state r = Robot_OK then s
          else
            let r1 = r\<lparr>state := int (level msg)\<rparr>;
                s1 = set_robot r1 s
            in
              if level msg = 0 then
                log_line Info ''Robot %s diagnostics received with OK status'' s1
              else
                let s2 = log_line Warn ''Robot %s diagnostics received with %s status'' s1 in
                if length (diagnostics r1) > 0
                then log_line Warn ''Full diagnostics:'' s2 else s2)"

text \<open>
  \<open>saveResults\<close> is called with a record under test only. The record is written to the
  result sink and appended to the ledger, and no record is under test afterwards.
\<close>

definition saveResults :: "QNode \<Rightarrow> QNode" where
  "saveResults s =
     (case under_test s of
        None \<Rightarrow> s
      | Some r \<Rightarrow>
          (log_line Info ''Saving results for %s'' s)
            \<lparr>out_file := out_file s @ [r], evaluated := evaluated s @ [r], under_test := None\<rparr>)"

definition robotEventCB :: "RobotStateEvent \<Rightarrow> QNode \<Rightarrow> QNode" where
  "robotEventCB msg s =
     (if robot_state msg = ONLINE then
        let s1 = (if under_test s \<noteq> None then
                    saveResults
                      (log_line Warn
                         ''New robot connected while %s is still under evaluation; saving...'' s)
                  else log_line Info ''New robot connected'' s);
            s2 = s1\<lparr>current_step := TEST_DIGITAL_IO_PORTS\<rparr>;
            s3 = s2\<lparr>under_test := Some (new_Robot (length (evaluated s2)))\<rparr>
        in emit Resubscribe s3
      else if robot_state msg = OFFLINE then
        (case under_test s of
           Some r \<Rightarrow>
             saveResults
               (if \<not> all_ok r
                then log_line Info ''Robot %s disconnected without finishing the evaluation'' s
                else log_line Info ''Robot %s evaluation successfully completed'' s)
         | None \<Rightarrow>
             log_line Warn ''Robot offline event received, but no robot is under evaluation'' s)
      else log_line Warn ''Unrecognized robot event received; ignoring'' s)"

section \<open>The step actions of the control loop\<close>

text \<open>
  What the outside supplies to the blocking step actions: whether the camera tester
  initialises, the camera's yaw at each attempt of each leg (\<open>None\<close> is not-a-number: no
  board recognized), and the messages served while an action sleeps: the onboard yaw
  samples during each polling sleep of the gyroscope test, the core telemetry during
  each waiting sleep, the settle interval and the measurement window of the charge
  measurement. Other sleeps serve nothing in the model, and \<open>ros::ok()\<close> holds.
\<close>

record Env =
  imu_init :: bool
  camera_yaw :: "nat \<Rightarrow> nat \<Rightarrow> real option"
  gyro_feed :: "nat \<Rightarrow> nat \<Rightarrow> real list"
  wait_feed :: "nat \<Rightarrow> SensorState list"
  settle_feed :: "SensorState list"
  window_feed :: "SensorState list"

fun testLeds_loop :: "bool \<Rightarrow> nat list \<Rightarrow> QNode \<Rightarrow> QNode" where
  "testLeds_loop first_call [] s = s"
| "testLeds_loop first_call (c # cs) s =
     (if current_step s = TEST_LEDS then
        testLeds_loop first_call cs
          (emit (LedCmd 2 Led_BLACK) (emit (LedCmd 1 Led_BLACK)
             (emit (LedCmd 2 c) (emit (LedCmd 1 c)
                (showUserMsg Info ''LEDs test''
                   ''You should see both LEDs blinking in green, orange and red alternatively''
                   s)))))
      else s)"

definition testLeds :: "bool \<Rightarrow> QNode \<Rightarrow> QNode" where
  "testLeds first_call s =
     testLeds_loop first_call [Led_GREEN ..< Suc Led_RED] (s\<lparr>answer_req := \<not> first_call\<rparr>)"

fun testSounds_loop :: "bool \<Rightarrow> nat list \<Rightarrow> QNode \<Rightarrow> QNode" where
  "testSounds_loop first_call [] s = s"
| "testSounds_loop first_call (c # cs) s =
     (if current_step s = TEST_SOUNDS then
        testSounds_loop first_call cs
          (emit (SoundCmd c)
             (showUserMsg Info ''Sounds test''
                ''You should hear sounds for On, Off, Recharge, Button, Error, Cleaning Start and Cleaning End continuously''
                s))
      else s)"

definition testSounds :: "bool \<Rightarrow> QNode \<Rightarrow> QNode" where
  "testSounds first_call s =
     testSounds_loop first_call [Sound_ON ..< Suc Sound_CLEANINGEND]
       (s\<lparr>answer_req := \<not> first_call\<rparr>)"

text \<open>The wrapping of a yaw difference in \<open>testIMU\<close>; \<open>M_PI\<close> is \<open>pi\<close>, doubles are reals.\<close>

definition yaw_wrap :: "real \<Rightarrow> real" where
  "yaw_wrap diff =
     (if diff > pi then diff - 2 * pi else if diff < - pi then diff + 2 * pi else diff)"

text \<open>
  The polling of the camera for leg \<open>i\<close>, from attempt \<open>j\<close>: up to 80 attempts, each after
  a sleep. The result is the inverted camera yaw, or \<open>None\<close> when no attempt succeeded.
\<close>

function poll_camera :: "Env \<Rightarrow> nat \<Rightarrow> nat \<Rightarrow> QNode \<Rightarrow> real option \<times> QNode" where
  "poll_camera env i j s =
     (if j < 80 then
        let s1 = fold gyroscopeCB (gyro_feed env i j) s in
        (case camera_yaw env i j of
           Some y \<Rightarrow> (Some (- y), hideUserMsg s1)
         | None \<Rightarrow>
             poll_camera env i (Suc j)
               (showUserMsg Warn ''Gyroscope test''
                  ''Cannot recognize the check board; please place the robot right below the camera''
                  s1))
      else (None, s))"
  by pat_completeness auto
termination
  by (relation "measure (\<lambda>(env, i, j, s). 80 - j)") auto

text \<open>One leg of the gyroscope test; the flag is false when the leg aborts.\<close>

definition imu_leg :: "Env \<Rightarrow> nat \<Rightarrow> QNode \<Rightarrow> bool \<times> QNode" where
  "imu_leg env i s =
     (case poll_camera env i 0 s of
        (None, s1) \<Rightarrow>
          (False,
           hideUserMsg
             (log_line Error
                ''Cannot recognize the check board after 80 attempts; gyroscope test aborted'' s1))
      | (Some vo_yaw, s1) \<Rightarrow>
          (case under_test s1 of
             None \<Rightarrow> (False, s1)
           | Some r \<Rightarrow>
               let diff = yaw_wrap (imu_data r 4 - vo_yaw);
                   s2 = log_line Info
                          ''Gyroscope test %d result: imu yaw = %.3f / vo yaw = %.3f / diff = %.3f'' s1;
                   r1 = r\<lparr>imu_data := (imu_data r)(i * 2 := imu_data r 4, i * 2 + 1 := diff)\<rparr>;
                   s3 = set_robot r1 s2;
                   s4 = (if i = 0 then
                           move 0 (- TEST_GYRO_W) (TEST_GYRO_A / TEST_GYRO_W) True
                             (move 0 TEST_GYRO_W (TEST_GYRO_A / TEST_GYRO_W) True s3)
                         else s3)
               in (True, set_robot (set_val IMU_DEV (device_val r1 IMU_DEV + 1) r1) s4)))"

definition testIMU :: "bool \<Rightarrow> Env \<Rightarrow> QNode \<Rightarrow> bool \<times> QNode" where
  "testIMU first_call env s =
     (let s0 = (if first_call
                then showUserMsg Info ''Gyroscope test''
                       ''Place the robot with the check board right below the camera'' s
                else s)
      in
        if \<not> imu_init env then
          (False,
           hideUserMsg (log_line Error ''Gyroscope test initialization failed; aborting test'' s0))
        else
          (case imu_leg env 0 s0 of
             (False, s1) \<Rightarrow> (False, s1)
           | (True, s1) \<Rightarrow>
               (case imu_leg env 1 s1 of
                  (False, s2) \<Rightarrow> (False, s2)
                | (True, s2) \<Rightarrow>
                    (case under_test s2 of
                       None \<Rightarrow> (True, s2)
                     | Some r \<Rightarrow>
                         if \<bar>imu_data r 1 - imu_data r 3\<bar> \<le> GYRO_CAMERA_MAX_DIFF then
                           (True,
                            hideUserMsg
                              (set_robot (set_ok IMU_DEV True r)
                                 (log_line Info
                                    ''Gyroscope testing successful: diff 1 = %.3f / diff 2 = %.3f''
                                    s2)))
                         else
                           (True,
                            hideUserMsg
                              (log_line Warn
                                 ''Gyroscope testing failed: diff 1 = %.3f / diff 2 = %.3f''
                                 s2))))))"

text \<open>The measured value of a device of the record under test.\<close>

definition robot_val :: "Device \<Rightarrow> QNode \<Rightarrow> int" where
  "robot_val d s = (case under_test s of None \<Rightarrow> 0 | Some r \<Rightarrow> device_val r d)"

text \<open>The conversion of a value to \<open>uint8_t\<close>.\<close>

definition uint8 :: "int \<Rightarrow> int" where
  "uint8 x = x mod 256"

text \<open>
  The waiting loop of \<open>measureCharge\<close>, from iteration \<open>i\<close>: at most \<open>40 * frequency\<close>
  sleeps of one control period, while the charging value is 0.
\<close>

function wait_charging :: "Env \<Rightarrow> nat \<Rightarrow> QNode \<Rightarrow> QNode" where
  "wait_charging env i s =
     (if int i < 40 * frequency \<and> robot_val CHARGING s = 0
      then wait_charging env (Suc i) (fold sensorsCoreCB (wait_feed env i) s)
      else s)"
  by pat_completeness auto
termination
  by (relation "measure (\<lambda>(env, i, s). 800 - i)") auto

text \<open>
  The phases of \<open>measureCharge\<close>: the node when the wait for the charging signal has
  ended and the prompt is hidden, after the settle interval (when \<open>v1\<close> is read), and
  after the measurement window (when \<open>v2\<close> is read).
\<close>

definition charge_waited :: "bool \<Rightarrow> Env \<Rightarrow> QNode \<Rightarrow> QNode" where
  "charge_waited first_call env s =
     hideUserMsg
       (wait_charging env 0
          (if first_call
           then showUserMsg Info ''Charge measurement''
                  ''Plug the adaptor to the robot and wait %d seconds'' s
           else s))"

definition charge_settled :: "bool \<Rightarrow> Env \<Rightarrow> QNode \<Rightarrow> QNode" where
  "charge_settled first_call env s =
     fold sensorsCoreCB (settle_feed env) (charge_waited first_call env s)"

definition charge_measured :: "bool \<Rightarrow> Env \<Rightarrow> QNode \<Rightarrow> QNode" where
  "charge_measured first_call env s =
     fold sensorsCoreCB (window_feed env) (charge_settled first_call env s)"

definition measureCharge :: "bool \<Rightarrow> Env \<Rightarrow> QNode \<Rightarrow> bool \<times> QNode" where
  "measureCharge first_call env s =
     (let s1 = charge_waited first_call env s in
        if robot_val CHARGING s1 = 0 then
          (False,
           log_line Error ''Adaptor not plugged after 40 seconds; aborting charge measurement'' s1)
        else
          let v1 = uint8 (robot_val CHARGING (charge_settled first_call env s));
              s3 = charge_measured first_call env s;
              v2 = uint8 (robot_val CHARGING s3)
          in
            (case under_test s3 of
               None \<Rightarrow> (True, s3)
             | Some r \<Rightarrow>
                 let r1 = set_val CHARGING (v2 - v1) r in
                 if device_val r1 CHARGING \<ge> MIN_POWER_CHARGED then
                   (True,
                    set_robot (set_ok CHARGING True r1)
                      (log_line Info ''Charge measurement: %.1f V in %d seconds'' s3))
                 else
                   (True,
                    set_robot r1 (log_line Warn ''Charge measurement: %.1f V in %d seconds'' s3))))"

text \<open>
  One channel of the scan of \<open>testAnalogIn\<close>: the measured value of the analog-input
  device and the commands published. Bits 16 and up mark the channels whose minimum was
  seen, bits 24 and up those whose maximum was seen, the low 16 bits count down the
  indicator pulse.
\<close>

definition analog_channel :: "nat \<Rightarrow> analog_row \<Rightarrow> int \<times> effect list \<Rightarrow> int \<times> effect list" where
  "analog_channel i row acc =
     (let MIN_MASK = push_bit 16 ((2::int) ^ i);
          MAX_MASK = push_bit 24 ((2::int) ^ i);
          acc1 = (if fst acc AND MIN_MASK = 0 \<and> AI_MIN row \<le> A_INPUT_MIN_THRESHOLD then
                    ((fst acc OR MIN_MASK) OR frequency,
                     snd acc @ [DigitalOutput [True, False, False, False]
                                              [True, False, False, False]])
                  else acc)
      in
        if fst acc1 AND MAX_MASK = 0 \<and> AI_MAX row \<ge> A_INPUT_MAX_THRESHOLD then
          ((fst acc1 OR MAX_MASK) OR frequency,
           snd acc1 @ [DigitalOutput [False, False, False, True]
                                     [False, False, False, True]])
        else acc1)"

fun analog_scan :: "nat \<Rightarrow> analog_row list \<Rightarrow> int \<times> effect list \<Rightarrow> int \<times> effect list" where
  "analog_scan i [] acc = acc"
| "analog_scan i (row # rows) acc = analog_scan (Suc i) rows (analog_channel i row acc)"

definition testAnalogIn :: "bool \<Rightarrow> QNode \<Rightarrow> bool \<times> QNode" where
  "testAnalogIn first_call s =
     (case under_test s of
        None \<Rightarrow> (False, s)
      | Some r \<Rightarrow>
          let s0 = (if first_call then
                      emit (DigitalOutput (replicate 4 False) (replicate 4 True))
                        (showUserMsg Info ''Test analogue input''
                           ''Turn analogue input screws clockwise and counterclockwise until reaching the limits''
                           s)
                    else s);
              v0 = (if first_call then 0 else device_val r A_INPUT);
              v1 = (if v0 AND 0xFFFF > 0 then v0 - 1 else v0);
              s1 = (if v0 AND 0xFFFF > 0 \<and> v1 AND 0xFFFF = 0 then
                      emit (DigitalOutput [False, False, False, False]
                                          [True, False, False, True]) s0
                    else s0);
              acc = analog_scan 0 (analog_in r) (v1, []);
              r1 = set_val A_INPUT (fst acc) r;
              s2 = set_robot r1 (s1\<lparr>outputs := outputs s1 @ snd acc\<rparr>)
          in
            if device_val r1 A_INPUT = 0x0F0F0000 then
              (True,
               step_pp
                 (hideUserMsg
                    (set_robot (set_ok A_INPUT True r1)
                       (log_line Info ''Analogue input evaluation completed'' s2))))
            else (False, s2))"

definition evalMotorsCurrent :: "bool \<Rightarrow> QNode \<Rightarrow> QNode" where
  "evalMotorsCurrent first_call s =
     (case under_test s of
        None \<Rightarrow> s
      | Some r \<Rightarrow>
          let r1 = set_ok MOTOR_R (device_val r MOTOR_R \<le> MOTOR_MAX_CURRENT)
                     (set_ok MOTOR_L (device_val r MOTOR_L \<le> MOTOR_MAX_CURRENT) r);
              s1 = set_robot r1 s
          in if motors_ok r1
             then log_line Info ''Motors current evaluation completed (%d, %d)'' s1
             else log_line Warn ''Motors current too high! (%d, %d)'' s1)"

section \<open>The control loop\<close>

text \<open>
  The \<open>switch\<close> of \<open>QNode::run\<close>: the action of the current step, given whether the
  step changed since the previous iteration and the record under test.
\<close>

definition step_action :: "Env \<Rightarrow> bool \<Rightarrow> Robot \<Rightarrow> QNode \<Rightarrow> QNode" where
  "step_action env step_changed r s1 =
     (let cs = current_step s1 in
      if cs = INITIALIZATION then step_pp s1
      else if cs = GET_SERIAL_NUMBER then
        (if device_ok r V_INFO then step_pp s1
         else if count s1 smod (frequency * 2) = 0
         then log_line Debug ''Waiting for serial number...'' s1 else s1)
      else if cs = TEST_DC_ADAPTER then
        (if step_changed
         then showUserMsg Info ''DC adapter plug test''
                ''Plug and unplug adapter to robot %d time(s)'' s1
         else s1)
      else if cs = TEST_DOCKING_BASE then
        (if step_changed
         then showUserMsg Info ''Docking base plug test''
                ''Plug and unplug robot to its base %d time(s)'' s1
         else s1)
      else if cs = BUTTON_0_PRESSED then
        (if step_changed
         then showUserMsg Info ''Function buttons test''
                ''Press the three function buttons sequentially from left to right'' s1
         else s1)
      else if cs = TEST_LEDS then testLeds step_changed s1
      else if cs = TEST_SOUNDS then testSounds step_changed s1
      else if cs = TEST_CLIFF_SENSORS then
        (if step_changed
         then showUserMsg Info ''Cliff sensors test''
                ''Raise and lower robot %d time(s) to test cliff sensors'' s1
         else s1)
      else if cs = TEST_WHEEL_DROP_SENSORS then
        (if step_changed
         then showUserMsg Info ''Wheel drop sensors test''
                ''Raise and lower robot %d time(s) to test wheel drop sensors'' s1
         else s1)
      else if cs = CENTER_BUMPER_PRESSED then
        (if step_changed
         then move TEST_BUMPERS_V 0 0 False
                (showUserMsg Info ''Bumper sensors test''
                   ''Place the robot facing a wall; after a while, the robot will move forward''
                   s1)
         else s1)
      else if cs = POINT_RIGHT_BUMPER then
        move 0 TEST_BUMPERS_W ((pi / 4) / TEST_BUMPERS_W) False s1
      else if cs = RIGHT_BUMPER_PRESSED then move TEST_BUMPERS_V 0 0 False s1
      else if cs = POINT_LEFT_BUMPER then
        move 0 (- TEST_BUMPERS_W) ((pi / 2) / TEST_BUMPERS_W) False s1
      else if cs = LEFT_BUMPER_PRESSED then move TEST_BUMPERS_V 0 0 False s1
      else if cs = PREPARE_MOTORS_TEST then
        move 0 (- TEST_BUMPERS_W) ((pi / 4) / TEST_BUMPERS_W) False
          (if step_changed
           then showUserMsg Info ''Motors current test''
                  ''Now the robot will move forward...'' s1
           else s1)
      else if cs = TEST_MOTORS_FORWARD then
        move TEST_MOTORS_V 0 (TEST_MOTORS_D / TEST_MOTORS_V) False s1
      else if cs = TEST_MOTORS_BACKWARD then
        showUserMsg Info ''Motors current test'' ''Now the robot will move backward...''
          (move (- TEST_MOTORS_V) 0 (TEST_MOTORS_D / TEST_MOTORS_V) False s1)
      else if cs = TEST_MOTORS_CLOCKWISE then
        showUserMsg Info ''Motors current test'' ''...and spin to evaluate motors''
          (move 0 (- TEST_MOTORS_W) (TEST_MOTORS_A / TEST_MOTORS_W) False s1)
      else if cs = TEST_MOTORS_COUNTERCW then
        move 0 TEST_MOTORS_W (TEST_MOTORS_A / TEST_MOTORS_W) False s1
      else if cs = EVAL_MOTORS_CURRENT then
        step_pp (evalMotorsCurrent step_changed (hideUserMsg s1))
      else if cs = MEASURE_GYRO_ERROR then step_pp (snd (testIMU step_changed env s1))
      else if cs = MEASURE_CHARGING then
        step_pp (snd (measureCharge step_changed env s1))
      else if cs = TEST_DIGITAL_IO_PORTS then
        (if step_changed then
           emit (DigitalOutput (replicate 4 False) (replicate 4 True))
             (set_robot (set_val D_INPUT 0 r)
                (showUserMsg Info ''Digital I/O test''
                   ''Press the four digital input buttons sequentially, from DI-1 to DI-4''
                   s1))
         else s1)
      else if cs = TEST_ANALOG_INPUT_PORTS then snd (testAnalogIn step_changed s1)
      else if cs = EVALUATION_COMPLETED then
        (saveResults
           (showUserMsg Info ''Evaluation result''
              ''Evaluation completed. Overall result: %s'' s1))
        \<lparr>current_step := INITIALIZATION\<rparr>
      else s1)"

text \<open>
  One iteration of the loop of \<open>QNode::run\<close>, after \<open>ros::spinOnce()\<close> and the sleep of
  the rate: the events served by \<open>spinOnce\<close> are steps of their own (see \<open>dispatch\<close>).
\<close>

definition run_body :: "Env \<Rightarrow> QNode \<Rightarrow> QNode" where
  "run_body env s0 =
     (let s = s0\<lparr>count := count s0 + 1\<rparr> in
      case under_test s of
        None \<Rightarrow> s
      | Some r \<Rightarrow>
          if timer_active s then s
          else step_action env (previous_step s \<noteq> current_step s) r
                 (s\<lparr>previous_step := current_step s\<rparr>))"

section \<open>The node as a transition system\<close>

text \<open>
  Everything that makes the node move: a message served to its callback, the one-shot
  timer firing, and an iteration of the control loop.
\<close>

datatype Event =
    EvVersionInfo VersionInfo
  | EvSensorsCore SensorState
  | EvDockBeacon DockInfraRed
  | EvGyroscope real
  | EvButton ButtonEvent
  | EvBumper BumperEvent
  | EvWheelDrop WheelDropEvent
  | EvCliff CliffEvent
  | EvPower PowerSystemEvent
  | EvInput DigitalInputEvent
  | EvDiagnostics "DiagnosticStatus list"
  | EvRobotStatus DiagnosticStatus
  | EvRobot RobotStateEvent
  | EvTimer
  | EvLoop Env

fun dispatch :: "Event \<Rightarrow> QNode \<Rightarrow> QNode" where
  "dispatch (EvVersionInfo m) s = versionInfoCB m s"
| "dispatch (EvSensorsCore m) s = sensorsCoreCB m s"
| "dispatch (EvDockBeacon m) s = dockBeaconCB m s"
| "dispatch (EvGyroscope m) s = gyroscopeCB m s"
| "dispatch (EvButton m) s = buttonEventCB m s"
| "dispatch (EvBumper m) s = bumperEventCB m s"
| "dispatch (EvWheelDrop m) s = wDropEventCB m s"
| "dispatch (EvCliff m) s = cliffEventCB m s"
| "dispatch (EvPower m) s = powerEventCB m s"
| "dispatch (EvInput m) s = inputEventCB m s"
| "dispatch (EvDiagnostics m) s = diagnosticsCB m s"
| "dispatch (EvRobotStatus m) s = robotStatusCB m s"
| "dispatch (EvRobot m) s = robotEventCB m s"
| "dispatch EvTimer s = timer_fires s"
| "dispatch (EvLoop env) s = run_body env s"

text \<open>The states the node can be in: after \<open>init\<close>, and after any event.\<close>

inductive reachable :: "QNode \<Rightarrow> bool" where
  init: "reachable QNode_init"
| step: "reachable s \<Longrightarrow> reachable (dispatch e s)"

text \<open>A run of events, oldest first.\<close>

definition run_events :: "Event list \<Rightarrow> QNode \<Rightarrow> QNode" where
  "run_events es s = fold dispatch es s"

definition is_online :: "Event \<Rightarrow> bool" where
  "is_online e = (case e of EvRobot m \<Rightarrow> robot_state m = ONLINE | _ \<Rightarrow> False)"

section \<open>The protocols in the words of the specification\<close>

text \<open>
  The parity-counter protocol: a device counts the events of its engage/release pairs.
  An even count expects the engage event, an odd count the release event. A matching
  event increments the count; with \<open>N\<close> round trips required, the device is verified once
  the count is at least \<open>2 * N\<close>. Any other event, and any event for a verified device,
  leaves the record as it is.
\<close>

definition parity_counter :: "int \<Rightarrow> Device \<Rightarrow> bool \<Rightarrow> bool \<Rightarrow> Robot \<Rightarrow> Robot" where
  "parity_counter N dev engage release r =
     (if device_ok r dev then r
      else if (engage \<and> even (device_val r dev)) \<or> (release \<and> odd (device_val r dev)) then
        (let r1 = set_val dev (device_val r dev + 1) r
         in if device_val r1 dev \<ge> 2 * N then set_ok dev True r1 else r1)
      else r)"

text \<open>
  The ordered-sequence protocol of the buttons: the three buttons in index order, each
  pressed and then released.
\<close>

definition ordered_button_events :: "ButtonEvent list" where
  "ordered_button_events =
     [ButtonEvent Button0 PRESSED, ButtonEvent Button0 RELEASED,
      ButtonEvent Button1 PRESSED, ButtonEvent Button1 RELEASED,
      ButtonEvent Button2 PRESSED, ButtonEvent Button2 RELEASED]"

section \<open>Example states\<close>

text \<open>A node with a new record under test, at a given step.\<close>

definition node_at :: "EvalStep \<Rightarrow> Robot \<Rightarrow> QNode" where
  "node_at cs r = QNode_init\<lparr>under_test := Some r, current_step := cs\<rparr>"

text \<open>An outside that supplies nothing: no camera, no messages during the sleeps.\<close>

definition quiet_env :: Env where
  "quiet_env =
     \<lparr>imu_init = False, camera_yaw = (\<lambda>i j. None), gyro_feed = (\<lambda>i j. []),
      wait_feed = (\<lambda>i. []), settle_feed = [], window_feed = []\<rparr>"

text \<open>The verified flag of a device of the record under test, and a slot of its
  orientation buffer.\<close>

definition robot_ok :: "Device \<Rightarrow> QNode \<Rightarrow> bool" where
  "robot_ok d s = (case under_test s of None \<Rightarrow> False | Some r \<Rightarrow> device_ok r d)"

definition robot_imu :: "nat \<Rightarrow> QNode \<Rightarrow> real" where
  "robot_imu k s = (case under_test s of None \<Rightarrow> 0 | Some r \<Rightarrow> imu_data r k)"

text \<open>
  An outside for the gyroscope test: the camera recognizes the board at once and reads
  \<open>y0\<close> before the rotations and \<open>y1\<close> after them; no onboard yaw arrives meanwhile.
  The node is at the gyroscope step with onboard yaw 1.20.
\<close>

definition gyro_env :: "real \<Rightarrow> real \<Rightarrow> Env" where
  "gyro_env y0 y1 =
     \<lparr>imu_init = True, camera_yaw = (\<lambda>i j. if i = 0 then Some y0 else Some y1),
      gyro_feed = (\<lambda>i j. []), wait_feed = (\<lambda>i. []), settle_feed = [], window_feed = []\<rparr>"

definition gyro_robot :: Robot where
  "gyro_robot = (new_Robot 0)\<lparr>imu_data := (\<lambda>k. if k = 4 then 1.2 else 0)\<rparr>"

definition gyro_node :: QNode where
  "gyro_node = node_at MEASURE_GYRO_ERROR gyro_robot"

text \<open>Two records agree up to the latest raw onboard yaw (slot 4 of the buffer).\<close>

definition same_but_yaw :: "Robot \<Rightarrow> Robot \<Rightarrow> bool" where
  "same_but_yaw r r' =
     (device_ok r' = device_ok r \<and> (\<forall>k. k \<noteq> 4 \<longrightarrow> imu_data r' k = imu_data r k))"

text \<open>The error lines among the effects.\<close>

definition is_error_log :: "effect \<Rightarrow> bool" where
  "is_error_log x = (case x of Log Error m \<Rightarrow> True | _ \<Rightarrow> False)"

definition errors_logged :: "QNode \<Rightarrow> nat" where
  "errors_logged s = length (filter is_error_log (outputs s))"

text \<open>
  An outside for the charge measurement: the charger is seen during the first waiting
  sleep with the battery at \<open>b1\<close>, and during the measurement window with the battery
  at \<open>b2\<close> (tenths of volt).
\<close>

definition charge_env :: "8 word \<Rightarrow> 8 word \<Rightarrow> Env" where
  "charge_env b1 b2 =
     \<lparr>imu_init = False, camera_yaw = (\<lambda>i j. None), gyro_feed = (\<lambda>i j. []),
      wait_feed = (\<lambda>i. if i = 0 then [SensorState (0, 0) 1 b1 []] else []),
      settle_feed = [], window_feed = [SensorState (0, 0) 1 b2 []]\<rparr>"

text \<open>
  What a newly seen limit does to the measured value of the analog-input device: it
  sets the channel's mark, bit \<open>k\<close>, and starts the pulse of the indicator.
\<close>

definition cover :: "nat \<Rightarrow> int \<Rightarrow> int" where
  "cover k v = (v OR 2 ^ k) OR frequency"

text \<open>The marks of channel \<open>i\<close> and the pulse countdown in a measured value.\<close>

definition covered_low :: "nat \<Rightarrow> int \<Rightarrow> bool" where
  "covered_low i v = bit v (16 + i)"

definition covered_high :: "nat \<Rightarrow> int \<Rightarrow> bool" where
  "covered_high i v = bit v (24 + i)"

definition countdown :: "int \<Rightarrow> int" where
  "countdown v = v AND 0xFFFF"

text \<open>The value that \<open>testAnalogIn\<close> starts from, and that value after the tick of
  the countdown.\<close>

definition analog_start :: "bool \<Rightarrow> Robot \<Rightarrow> int" where
  "analog_start first_call r = (if first_call then 0 else device_val r A_INPUT)"

definition analog_ticked :: "bool \<Rightarrow> Robot \<Rightarrow> int" where
  "analog_ticked first_call r =
     (if countdown (analog_start first_call r) > 0
      then analog_start first_call r - 1 else analog_start first_call r)"

text \<open>
  Records for the analog-input step: the measured value of the device is \<open>v\<close> and every
  channel has the running minimum \<open>lo\<close> and the running maximum \<open>hi\<close>, the first channel
  the running minimum \<open>lo0\<close>.
\<close>

definition analog_robot :: "int \<Rightarrow> int \<Rightarrow> int \<Rightarrow> int \<Rightarrow> Robot" where
  "analog_robot v lo0 lo hi =
     (new_Robot 0)
       \<lparr>device_val := (\<lambda>d. if d = A_INPUT then v else 0),
        analog_in :=
          \<lparr>AI_INC = 0, AI_PRE = 0, AI_MIN = lo0, AI_MAX = hi\<rparr> #
          replicate 3 \<lparr>AI_INC = 0, AI_PRE = 0, AI_MIN = lo, AI_MAX = hi\<rparr>\<rparr>"

section \<open>The identity of the unit under test\<close>

text \<open>
  What identifies the unit under test against the ledger: the ledger, and the serial,
  the device id and the identified flag of the record, if there is one.
\<close>

definition identity :: "QNode \<Rightarrow> Robot list \<times> (udid \<times> udid \<times> bool) option" where
  "identity s =
     (evaluated s, map_option (\<lambda>r. (serial r, u_dev_id r, device_ok r V_INFO)) (under_test s))"

text \<open>
  An identified record carries the id it was identified with, and its serial is not in
  the ledger.
\<close>

definition identified_fresh :: "QNode \<Rightarrow> bool" where
  "identified_fresh s =
     (case under_test s of
        None \<Rightarrow> True
      | Some r \<Rightarrow>
          \<not> device_ok r V_INFO \<or>
          (u_dev_id r = serial r \<and> evaluated_get (evaluated s) (serial r) = None))"

text \<open>A run without a \<open>unit online\<close> event.\<close>

definition no_online :: "Event list \<Rightarrow> bool" where
  "no_online es = list_all (\<lambda>e. \<not> is_online e) es"

text \<open>
  A session in which the unit with device id (1, 2, 3) was identified and then went
  offline, so that it is in the ledger, and a unit has come online again.
\<close>

definition known_unit :: VersionInfo where
  "known_unit = VersionInfo (1, 2, 3) 1 1 1"

definition second_unit_online :: QNode where
  "second_unit_online =
     run_events
       [EvRobot (RobotStateEvent ONLINE), EvVersionInfo known_unit,
        EvRobot (RobotStateEvent OFFLINE), EvRobot (RobotStateEvent ONLINE)]
       QNode_init"

text \<open>
  The ways the current step evolves in one event: it stays, it advances by one, or the
  terminal step goes back to the first step.
\<close>

definition step_evolves :: "QNode \<Rightarrow> QNode \<Rightarrow> bool" where
  "step_evolves s s' =
     (current_step s' = current_step s \<or> current_step s' = Suc (current_step s) \<or>
      current_step s = EVALUATION_COMPLETED \<and> current_step s' = INITIALIZATION)"

section \<open>Basic facts\<close>

lemmas state_defs = log_line_def emit_def set_robot_def step_pp_def set_val_def set_ok_def
  showUserMsg_def hideUserMsg_def

lemma smod2_nonneg: "0 \<le> (v::int) \<Longrightarrow> v smod 2 = v mod 2"
  by (cases "v = 0") (simp_all add: smod_int_alt_def)

lemma smod2_even: "0 \<le> (v::int) \<Longrightarrow> (v smod 2 = 0) = even v"
  by (simp add: smod2_nonneg even_iff_mod_2_eq_zero)

lemma smod2_odd: "0 \<le> (v::int) \<Longrightarrow> (v smod 2 = 1) = odd v"
  by (simp add: smod2_nonneg odd_iff_mod_2_eq_one)

lemma xor_one_mod2: "(p::nat) mod 2 XOR Suc 0 = Suc 0 - p mod 2"
  by (cases "even p") (simp_all add: even_iff_mod_2_eq_zero odd_iff_mod_2_eq_one)

lemma family_ok_val [simp]:
  "w_drop_ok (r\<lparr>device_val := x\<rparr>) = w_drop_ok r"
  "cliffs_ok (r\<lparr>device_val := x\<rparr>) = cliffs_ok r"
  by (simp_all add: w_drop_ok_def cliffs_ok_def)

lemma w_drop_not_ok: "\<not> device_ok r (wheel_dev m) \<Longrightarrow> \<not> w_drop_ok r"
  by (auto simp: wheel_dev_def w_drop_ok_def split: if_splits)

lemma cliffs_not_ok: "\<not> device_ok r (cliff_dev m) \<Longrightarrow> \<not> cliffs_ok r"
  by (auto simp: cliff_dev_def cliffs_ok_def split: if_splits)

section \<open>The parity-counter protocol\<close>

lemma wDrop_parity:
  assumes u: "under_test s = Some r" and c: "current_step s = TEST_WHEEL_DROP_SENSORS"
    and v: "0 \<le> device_val r (wheel_dev m)"
  shows "(wDropEventCB m s)\<lparr>outputs := outputs s\<rparr> =
     (let r' = parity_counter WHEEL_DROP_TESTS (wheel_dev m)
                 (wheel_state m = DROPPED) (wheel_state m = RAISED) r
      in s\<lparr>under_test := Some r',
           current_step := (if w_drop_ok r' \<and> \<not> w_drop_ok r
                            then Suc (current_step s) else current_step s)\<rparr>)"
proof (cases "device_ok r (wheel_dev m)")
  case True
  with u c show ?thesis
    by (simp add: wDropEventCB_def parity_counter_def)
next
  case False
  note nk = False w_drop_not_ok [OF False]
  show ?thesis
  proof (cases "even (device_val r (wheel_dev m))";
         cases "wheel_state m = DROPPED"; cases "wheel_state m = RAISED";
         cases "3 \<le> device_val r (wheel_dev m)")
  qed (use u c v nk in \<open>simp_all add: wDropEventCB_def parity_counter_def smod2_even
         smod2_odd state_defs Let_def\<close>)
qed

lemma cliff_parity:
  assumes u: "under_test s = Some r" and c: "current_step s = TEST_CLIFF_SENSORS"
    and v: "0 \<le> device_val r (cliff_dev m)"
  shows "(cliffEventCB m s)\<lparr>outputs := outputs s\<rparr> =
     (let r' = parity_counter CLIFF_SENSOR_TESTS (cliff_dev m)
                 (cliff_state m = CLIFF) (cliff_state m = FLOOR) r
      in s\<lparr>under_test := Some r',
           current_step := (if cliffs_ok r' \<and> \<not> cliffs_ok r
                            then Suc (current_step s) else current_step s)\<rparr>)"
proof (cases "device_ok r (cliff_dev m)")
  case True
  with u c show ?thesis
    by (simp add: cliffEventCB_def parity_counter_def)
next
  case False
  note nk = False cliffs_not_ok [OF False]
  show ?thesis
  proof (cases "even (device_val r (cliff_dev m))";
         cases "cliff_state m = CLIFF"; cases "cliff_state m = FLOOR";
         cases "3 \<le> device_val r (cliff_dev m)")
  qed (use u c v nk in \<open>simp_all add: cliffEventCB_def parity_counter_def smod2_even
         smod2_odd state_defs Let_def\<close>)
qed

lemma power_parity:
  assumes u: "under_test s = Some r"
    and c: "current_step s = TEST_DC_ADAPTER \<or> current_step s = TEST_DOCKING_BASE"
    and v: "0 \<le> device_val r (power_dev (current_step s))"
  shows "(powerEventCB m s)\<lparr>outputs := outputs s\<rparr> =
     (let dev = power_dev (current_step s);
          r' = parity_counter POWER_PLUG_TESTS dev
                 ((event m = PLUGGED_TO_ADAPTER \<and> current_step s = TEST_DC_ADAPTER) \<or>
                  (event m = PLUGGED_TO_DOCKBASE \<and> current_step s = TEST_DOCKING_BASE))
                 (event m = UNPLUGGED) r
      in s\<lparr>under_test := Some r',
           current_step := (if device_ok r' dev \<and> \<not> device_ok r dev
                            then Suc (current_step s) else current_step s)\<rparr>)"
proof (cases "device_ok r (power_dev (current_step s))")
  case True
  with u c show ?thesis
    by (auto simp add: powerEventCB_def parity_counter_def Let_def)
next
  case False
  then have np: "\<not> pwr_src_ok r"
    by (auto simp: power_dev_def pwr_src_ok_def split: if_splits)
  show ?thesis
  proof (cases "current_step s = TEST_DC_ADAPTER";
         cases "even (device_val r (power_dev (current_step s)))";
         cases "event m = PLUGGED_TO_ADAPTER"; cases "event m = PLUGGED_TO_DOCKBASE";
         cases "event m = UNPLUGGED";
         cases "1 \<le> device_val r (power_dev (current_step s))")
  qed (use u c v False np in \<open>simp_all add: powerEventCB_def parity_counter_def smod2_even
         smod2_odd state_defs Let_def\<close>)
qed

text \<open>
  C1 (as amended). Wheel-drop, cliff and power-plug events follow the parity-counter
  protocol: with a record under test, at the family's step and with a count that is not
  negative, the callback changes the record exactly as \<open>parity_counter\<close> says, with
  \<open>N = 2\<close> for wheel-drop and cliff and \<open>N = 1\<close> for the power plug. So an even count
  expects the engage event (dropped, cliff, plugged to the source under evaluation), an
  odd count the release event (raised, floor, unplugged); a matching event adds exactly
  one to the count and the device is verified once the count reaches \<open>2 * N\<close>; any other
  event, and any event for a device already verified, changes nothing but the log. The
  step advances exactly when the event completes the family (for a power source, the
  device). The bumpers are not part of this protocol.
\<close>

theorem parity_counter_protocol:
  assumes "under_test s = Some r"
  shows
    "(current_step s = TEST_WHEEL_DROP_SENSORS \<longrightarrow> 0 \<le> device_val r (wheel_dev w) \<longrightarrow>
        (wDropEventCB w s)\<lparr>outputs := outputs s\<rparr> =
          (let r' = parity_counter WHEEL_DROP_TESTS (wheel_dev w)
                      (wheel_state w = DROPPED) (wheel_state w = RAISED) r
           in s\<lparr>under_test := Some r',
                current_step := (if w_drop_ok r' \<and> \<not> w_drop_ok r
                                 then Suc (current_step s) else current_step s)\<rparr>)) \<and>
     (current_step s = TEST_CLIFF_SENSORS \<longrightarrow> 0 \<le> device_val r (cliff_dev c) \<longrightarrow>
        (cliffEventCB c s)\<lparr>outputs := outputs s\<rparr> =
          (let r' = parity_counter CLIFF_SENSOR_TESTS (cliff_dev c)
                      (cliff_state c = CLIFF) (cliff_state c = FLOOR) r
           in s\<lparr>under_test := Some r',
                current_step := (if cliffs_ok r' \<and> \<not> cliffs_ok r
                                 then Suc (current_step s) else current_step s)\<rparr>)) \<and>
     (current_step s = TEST_DC_ADAPTER \<or> current_step s = TEST_DOCKING_BASE \<longrightarrow>
      0 \<le> device_val r (power_dev (current_step s)) \<longrightarrow>
        (powerEventCB p s)\<lparr>outputs := outputs s\<rparr> =
          (let dev = power_dev (current_step s);
               r' = parity_counter POWER_PLUG_TESTS dev
                      ((event p = PLUGGED_TO_ADAPTER \<and> current_step s = TEST_DC_ADAPTER) \<or>
                       (event p = PLUGGED_TO_DOCKBASE \<and> current_step s = TEST_DOCKING_BASE))
                      (event p = UNPLUGGED) r
           in s\<lparr>under_test := Some r',
                current_step := (if device_ok r' dev \<and> \<not> device_ok r dev
                                 then Suc (current_step s) else current_step s)\<rparr>))"
proof (intro conjI impI)
  assume "current_step s = TEST_WHEEL_DROP_SENSORS" "0 \<le> device_val r (wheel_dev w)"
  with assms show "(wDropEventCB w s)\<lparr>outputs := outputs s\<rparr> =
          (let r' = parity_counter WHEEL_DROP_TESTS (wheel_dev w)
                      (wheel_state w = DROPPED) (wheel_state w = RAISED) r
           in s\<lparr>under_test := Some r',
                current_step := (if w_drop_ok r' \<and> \<not> w_drop_ok r
                                 then Suc (current_step s) else current_step s)\<rparr>)"
    by (rule wDrop_parity)
next
  assume "current_step s = TEST_CLIFF_SENSORS" "0 \<le> device_val r (cliff_dev c)"
  with assms show "(cliffEventCB c s)\<lparr>outputs := outputs s\<rparr> =
          (let r' = parity_counter CLIFF_SENSOR_TESTS (cliff_dev c)
                      (cliff_state c = CLIFF) (cliff_state c = FLOOR) r
           in s\<lparr>under_test := Some r',
                current_step := (if cliffs_ok r' \<and> \<not> cliffs_ok r
                                 then Suc (current_step s) else current_step s)\<rparr>)"
    by (rule cliff_parity)
next
  assume "current_step s = TEST_DC_ADAPTER \<or> current_step s = TEST_DOCKING_BASE"
    "0 \<le> device_val r (power_dev (current_step s))"
  with assms show "(powerEventCB p s)\<lparr>outputs := outputs s\<rparr> =
          (let dev = power_dev (current_step s);
               r' = parity_counter POWER_PLUG_TESTS dev
                      ((event p = PLUGGED_TO_ADAPTER \<and> current_step s = TEST_DC_ADAPTER) \<or>
                       (event p = PLUGGED_TO_DOCKBASE \<and> current_step s = TEST_DOCKING_BASE))
                      (event p = UNPLUGGED) r
           in s\<lparr>under_test := Some r',
                current_step := (if device_ok r' dev \<and> \<not> device_ok r dev
                                 then Suc (current_step s) else current_step s)\<rparr>)"
    by (rule power_parity)
qed

text \<open>
  The protocol at work: the fourth event of the left wheel (raised, count 3) verifies it;
  the first cliff event of the centre sensor is counted; unplugging the adapter at
  count 1 verifies the jack and advances to the docking-base step; and a raised event at
  count 0 changes nothing.
\<close>

theorem parity_counter_protocol_witness:
  "(under_test (node_at TEST_WHEEL_DROP_SENSORS (set_val W_DROP_L 3 (new_Robot 0))) =
      Some (set_val W_DROP_L 3 (new_Robot 0)) \<and>
    current_step (node_at TEST_WHEEL_DROP_SENSORS (set_val W_DROP_L 3 (new_Robot 0))) =
      TEST_WHEEL_DROP_SENSORS \<and>
    0 \<le> device_val (set_val W_DROP_L 3 (new_Robot 0)) (wheel_dev (WheelDropEvent LEFT RAISED)) \<and>
    (wDropEventCB (WheelDropEvent LEFT RAISED)
       (node_at TEST_WHEEL_DROP_SENSORS (set_val W_DROP_L 3 (new_Robot 0))))
      \<lparr>outputs := []\<rparr> =
      node_at TEST_WHEEL_DROP_SENSORS (set_ok W_DROP_L True (set_val W_DROP_L 4 (new_Robot 0)))) \<and>
   (under_test (node_at TEST_CLIFF_SENSORS (new_Robot 0)) = Some (new_Robot 0) \<and>
    current_step (node_at TEST_CLIFF_SENSORS (new_Robot 0)) = TEST_CLIFF_SENSORS \<and>
    0 \<le> device_val (new_Robot 0) (cliff_dev (CliffEvent CLIFF_CENTER CLIFF)) \<and>
    (cliffEventCB (CliffEvent CLIFF_CENTER CLIFF) (node_at TEST_CLIFF_SENSORS (new_Robot 0)))
      \<lparr>outputs := []\<rparr> =
      node_at TEST_CLIFF_SENSORS (set_val CLIFF_C 1 (new_Robot 0)) \<and>
    (cliffEventCB (CliffEvent CLIFF_CENTER FLOOR) (node_at TEST_CLIFF_SENSORS (new_Robot 0)))
      \<lparr>outputs := []\<rparr> =
      node_at TEST_CLIFF_SENSORS (new_Robot 0)) \<and>
   (under_test (node_at TEST_DC_ADAPTER (set_val PWR_JACK 1 (new_Robot 0))) =
      Some (set_val PWR_JACK 1 (new_Robot 0)) \<and>
    (current_step (node_at TEST_DC_ADAPTER (set_val PWR_JACK 1 (new_Robot 0))) = TEST_DC_ADAPTER \<or>
     current_step (node_at TEST_DC_ADAPTER (set_val PWR_JACK 1 (new_Robot 0))) = TEST_DOCKING_BASE) \<and>
    0 \<le> device_val (set_val PWR_JACK 1 (new_Robot 0)) (power_dev TEST_DC_ADAPTER) \<and>
    (powerEventCB (PowerSystemEvent UNPLUGGED)
       (node_at TEST_DC_ADAPTER (set_val PWR_JACK 1 (new_Robot 0))))
      \<lparr>outputs := []\<rparr> =
      node_at TEST_DOCKING_BASE (set_ok PWR_JACK True (set_val PWR_JACK 2 (new_Robot 0))))"
proof -
  let ?rw = "set_val W_DROP_L 3 (new_Robot 0)"
  let ?rp = "set_val PWR_JACK 1 (new_Robot 0)"
  have w: "under_test (node_at TEST_WHEEL_DROP_SENSORS ?rw) = Some ?rw"
    and c: "under_test (node_at TEST_CLIFF_SENSORS (new_Robot 0)) = Some (new_Robot 0)"
    and p: "under_test (node_at TEST_DC_ADAPTER ?rp) = Some ?rp"
    by (simp_all add: node_at_def)
  show ?thesis
    using parity_counter_protocol [OF w, of "WheelDropEvent LEFT RAISED"]
      parity_counter_protocol [OF c, of _ "CliffEvent CLIFF_CENTER CLIFF"]
      parity_counter_protocol [OF c, of _ "CliffEvent CLIFF_CENTER FLOOR"]
      parity_counter_protocol [OF p, of _ _ "PowerSystemEvent UNPLUGGED"]
    by (simp add: node_at_def QNode_init_def new_Robot_def parity_counter_def set_val_def
        set_ok_def wheel_dev_def cliff_dev_def power_dev_def w_drop_ok_def cliffs_ok_def
        Let_def)
qed

text \<open>
  C1 as stated fails for the bumpers. From a new record at the step that expects the
  centre bumper pressed, a press and a release bring its count to 2, an even count. A
  second release is then still accepted and counted, and a press is refused: what the
  bumper callback expects comes from the current step, not from the parity of the
  count.
\<close>

theorem bumper_parity_counterexample:
  "even (robot_val BUMPER_C
           (fold bumperEventCB [BumperEvent 1 PRESSED, BumperEvent 1 RELEASED]
              (node_at CENTER_BUMPER_PRESSED (new_Robot 0)))) \<and>
   robot_val BUMPER_C
     (bumperEventCB (BumperEvent 1 RELEASED)
        (fold bumperEventCB [BumperEvent 1 PRESSED, BumperEvent 1 RELEASED]
           (node_at CENTER_BUMPER_PRESSED (new_Robot 0)))) = 3 \<and>
   robot_val BUMPER_C
     (bumperEventCB (BumperEvent 1 PRESSED)
        (fold bumperEventCB [BumperEvent 1 PRESSED, BumperEvent 1 RELEASED]
           (node_at CENTER_BUMPER_PRESSED (new_Robot 0)))) = 2"
  by (simp add: bumperEventCB_def node_at_def QNode_init_def new_Robot_def robot_val_def
      bumpers_ok_def bumper_dev_def move_def state_defs Let_def)

section \<open>The ordered-sequence protocol of the buttons\<close>

lemma button_match:
  assumes u: "under_test s = Some r"
    and lo: "BUTTON_0_PRESSED \<le> current_step s" and hi: "current_step s \<le> BUTTON_2_RELEASED"
    and nk: "\<not> buttons_ok r"
    and mt: "button m = (current_step s - BUTTON_0_PRESSED) div 2"
            "button_state m = 1 - (current_step s - BUTTON_0_PRESSED) mod 2"
  shows "(buttonEventCB m s)\<lparr>outputs := outputs s\<rparr> =
         s\<lparr>under_test := Some (if button_state m = RELEASED
                                then set_ok (button_dev (button m)) True r else r),
           current_step := Suc (current_step s)\<rparr>"
  using u lo hi nk mt
  by (simp add: buttonEventCB_def xor_one_mod2 Let_def state_defs)

lemma button_mismatch:
  assumes u: "under_test s = Some r"
    and lo: "BUTTON_0_PRESSED \<le> current_step s" and hi: "current_step s \<le> BUTTON_2_RELEASED"
    and nk: "\<not> buttons_ok r"
    and mt: "\<not> (button m = (current_step s - BUTTON_0_PRESSED) div 2 \<and>
            button_state m = 1 - (current_step s - BUTTON_0_PRESSED) mod 2)"
  shows "buttonEventCB m s = log_line Warn ''Unexpected button event: %d %s'' s"
proof (cases "button m = (current_step s - 4) div 2";
       cases "button_state m = Suc 0 - (current_step s - 4) mod 2")
qed (use u lo hi nk mt in \<open>simp_all add: buttonEventCB_def xor_one_mod2 Let_def\<close>)

lemma button_run:
  assumes u: "under_test s = Some r" and c: "current_step s = BUTTON_0_PRESSED"
    and nk: "\<not> device_ok r BUTTON_2"
  shows "(fold buttonEventCB ordered_button_events s)\<lparr>outputs := outputs s\<rparr> =
     s\<lparr>under_test := Some (set_ok BUTTON_2 True (set_ok BUTTON_1 True (set_ok BUTTON_0 True r))),
       current_step := BUTTON_0_PRESSED + 6\<rparr>"
  using assms
  by (simp add: ordered_button_events_def buttonEventCB_def buttons_ok_def Let_def state_defs
      button_dev_def)

text \<open>
  C2. During the button steps, with a record under test whose last button is not yet
  verified (it is verified by the last event of the sequence only), the progress is the
  distance of the current step from the first button step. The expected button is
  \<open>progress div 2\<close> and the expected action \<open>1 - progress mod 2\<close> (press = 1, release = 0).
  A matching event advances the step, hence the progress, by exactly one and, when it is
  a release, sets that button's verified flag; any other event changes nothing but the
  log. From progress 0 the three ordered press/release pairs bring the progress to 6 and
  set the three verified flags.
\<close>

theorem button_sequence_protocol:
  assumes "under_test s = Some r"
    and "BUTTON_0_PRESSED \<le> current_step s" and "current_step s \<le> BUTTON_2_RELEASED"
    and "\<not> device_ok r BUTTON_2"
  shows
    "(button m = (current_step s - BUTTON_0_PRESSED) div 2 \<and>
      button_state m = 1 - (current_step s - BUTTON_0_PRESSED) mod 2 \<longrightarrow>
        (buttonEventCB m s)\<lparr>outputs := outputs s\<rparr> =
          s\<lparr>under_test := Some (if button_state m = RELEASED
                                 then set_ok (button_dev (button m)) True r else r),
            current_step := Suc (current_step s)\<rparr>) \<and>
     (\<not> (button m = (current_step s - BUTTON_0_PRESSED) div 2 \<and>
         button_state m = 1 - (current_step s - BUTTON_0_PRESSED) mod 2) \<longrightarrow>
        (buttonEventCB m s)\<lparr>outputs := outputs s\<rparr> = s) \<and>
     (current_step s = BUTTON_0_PRESSED \<longrightarrow>
        (fold buttonEventCB ordered_button_events s)\<lparr>outputs := outputs s\<rparr> =
          s\<lparr>under_test :=
              Some (set_ok BUTTON_2 True (set_ok BUTTON_1 True (set_ok BUTTON_0 True r))),
            current_step := BUTTON_0_PRESSED + 6\<rparr>)"
proof -
  from assms(4) have nk: "\<not> buttons_ok r"
    by (simp add: buttons_ok_def)
  show ?thesis
  proof (intro conjI impI)
    assume "button m = (current_step s - BUTTON_0_PRESSED) div 2 \<and>
      button_state m = 1 - (current_step s - BUTTON_0_PRESSED) mod 2"
    then show "(buttonEventCB m s)\<lparr>outputs := outputs s\<rparr> =
          s\<lparr>under_test := Some (if button_state m = RELEASED
                                 then set_ok (button_dev (button m)) True r else r),
            current_step := Suc (current_step s)\<rparr>"
      using button_match [OF assms(1-3) nk] by blast
  next
    assume "\<not> (button m = (current_step s - BUTTON_0_PRESSED) div 2 \<and>
         button_state m = 1 - (current_step s - BUTTON_0_PRESSED) mod 2)"
    then show "(buttonEventCB m s)\<lparr>outputs := outputs s\<rparr> = s"
      by (simp add: button_mismatch [OF assms(1-3) nk] log_line_def emit_def)
  next
    assume "current_step s = BUTTON_0_PRESSED"
    then show "(fold buttonEventCB ordered_button_events s)\<lparr>outputs := outputs s\<rparr> =
          s\<lparr>under_test :=
              Some (set_ok BUTTON_2 True (set_ok BUTTON_1 True (set_ok BUTTON_0 True r))),
            current_step := BUTTON_0_PRESSED + 6\<rparr>"
      using button_run [OF assms(1) _ assms(4)] by blast
  qed
qed

text \<open>
  At progress 0 of a new record: pressing button 0 advances to progress 1, pressing
  button 1 is out of order and changes nothing, and the whole ordered sequence ends at
  the step after the buttons with the three buttons verified.
\<close>

theorem button_sequence_protocol_witness:
  "under_test (node_at BUTTON_0_PRESSED (new_Robot 0)) = Some (new_Robot 0) \<and>
   BUTTON_0_PRESSED \<le> current_step (node_at BUTTON_0_PRESSED (new_Robot 0)) \<and>
   current_step (node_at BUTTON_0_PRESSED (new_Robot 0)) \<le> BUTTON_2_RELEASED \<and>
   \<not> device_ok (new_Robot 0) BUTTON_2 \<and>
   (buttonEventCB (ButtonEvent Button0 PRESSED) (node_at BUTTON_0_PRESSED (new_Robot 0)))
     \<lparr>outputs := []\<rparr> = node_at BUTTON_0_RELEASED (new_Robot 0) \<and>
   (buttonEventCB (ButtonEvent Button1 PRESSED) (node_at BUTTON_0_PRESSED (new_Robot 0)))
     \<lparr>outputs := []\<rparr> = node_at BUTTON_0_PRESSED (new_Robot 0) \<and>
   (fold buttonEventCB ordered_button_events (node_at BUTTON_0_PRESSED (new_Robot 0)))
     \<lparr>outputs := []\<rparr> =
     node_at TEST_LEDS
       (set_ok BUTTON_2 True (set_ok BUTTON_1 True (set_ok BUTTON_0 True (new_Robot 0))))"
proof -
  have h: "under_test (node_at BUTTON_0_PRESSED (new_Robot 0)) = Some (new_Robot 0)"
    "BUTTON_0_PRESSED \<le> current_step (node_at BUTTON_0_PRESSED (new_Robot 0))"
    "current_step (node_at BUTTON_0_PRESSED (new_Robot 0)) \<le> BUTTON_2_RELEASED"
    "\<not> device_ok (new_Robot 0) BUTTON_2"
    by (simp_all add: node_at_def QNode_init_def new_Robot_def)
  show ?thesis
    using h button_sequence_protocol [OF h, of "ButtonEvent Button0 PRESSED"]
      button_sequence_protocol [OF h, of "ButtonEvent Button1 PRESSED"]
    by (simp add: node_at_def QNode_init_def)
qed

section \<open>The scripted motion controller\<close>

text \<open>
  C9. A non-blocking move with a positive duration publishes the velocity command at
  once, starts the one-shot timer with that duration, whatever was pending before, and
  marks the motion active. The node has this one timer only, so a second move replaces
  the pending action of the first. When the timer fires, the step advances by one, the
  motion is no longer active, a zero velocity is published and nothing is pending.
  While the motion is active an iteration of the control loop only counts: no step
  action runs.
\<close>

theorem move_arms_one_shot:
  "(0 < t \<longrightarrow>
      move v w t False s =
        s\<lparr>timer := Some t, timer_active := True, outputs := outputs s @ [CmdVel v w]\<rparr> \<and>
      timer_fires (move v w t False s) =
        s\<lparr>current_step := Suc (current_step s), timer := None, timer_active := False,
          outputs := outputs s @ [CmdVel v w, CmdVel 0 0]\<rparr> \<and>
      (0 < t' \<longrightarrow> timer (move v w t False (move v' w' t' False s)) = Some t) \<and>
      run_body env (move v w t False s) =
        (move v w t False s)\<lparr>count := count s + 1\<rparr>) \<and>
   (timer_active s \<longrightarrow> run_body env s = s\<lparr>count := count s + 1\<rparr>)"
  by (cases "under_test s")
    (simp_all add: move_def emit_def timer_fires_def timerEventCB_def step_pp_def
      run_body_def Let_def)

text \<open>
  The turn towards the right bumper, armed on a node whose timer was already pending:
  the new duration replaces the old one.
\<close>

theorem move_arms_one_shot_witness:
  "(0::real) < 5 / 4 \<and> (0::real) < 3 \<and>
   move 0 (pi / 5) (5 / 4) False (node_at POINT_RIGHT_BUMPER (new_Robot 0)) =
     (node_at POINT_RIGHT_BUMPER (new_Robot 0))
       \<lparr>timer := Some (5 / 4), timer_active := True, outputs := [CmdVel 0 (pi / 5)]\<rparr> \<and>
   timer_fires (move 0 (pi / 5) (5 / 4) False (node_at POINT_RIGHT_BUMPER (new_Robot 0))) =
     (node_at RIGHT_BUMPER_PRESSED (new_Robot 0))
       \<lparr>outputs := [CmdVel 0 (pi / 5), CmdVel 0 0]\<rparr> \<and>
   timer (move 0 (pi / 5) (5 / 4) False
            (move 1 0 3 False (node_at POINT_RIGHT_BUMPER (new_Robot 0)))) = Some (5 / 4) \<and>
   timer_active (move 1 0 3 False (node_at POINT_RIGHT_BUMPER (new_Robot 0))) \<and>
   run_body quiet_env (move 1 0 3 False (node_at POINT_RIGHT_BUMPER (new_Robot 0))) =
     (move 1 0 3 False (node_at POINT_RIGHT_BUMPER (new_Robot 0)))\<lparr>count := 1\<rparr>"
proof -
  let ?s = "node_at POINT_RIGHT_BUMPER (new_Robot 0)"
  have pos: "(0::real) < 5 / 4" "(0::real) < 3"
    by simp_all
  note T = move_arms_one_shot [where t = "5 / 4" and v = 0 and w = "pi / 5" and s = ?s
      and t' = 3 and v' = 1 and w' = 0 and env = quiet_env, THEN conjunct1, rule_format,
      OF pos(1)]
  have a: "timer_active (move 1 0 3 False ?s)"
    by (simp add: move_def emit_def)
  have m: "move 0 (pi / 5) (5 / 4) False ?s =
      ?s\<lparr>timer := Some (5 / 4), timer_active := True, outputs := [CmdVel 0 (pi / 5)]\<rparr>"
    using T [THEN conjunct1] by (simp add: node_at_def QNode_init_def)
  have f: "timer_fires (move 0 (pi / 5) (5 / 4) False ?s) =
      (node_at RIGHT_BUMPER_PRESSED (new_Robot 0))\<lparr>outputs := [CmdVel 0 (pi / 5), CmdVel 0 0]\<rparr>"
    using T [THEN conjunct2, THEN conjunct1] by (simp add: node_at_def QNode_init_def)
  have r: "timer (move 0 (pi / 5) (5 / 4) False (move 1 0 3 False ?s)) = Some (5 / 4)"
    using T [THEN conjunct2, THEN conjunct2, THEN conjunct1] by simp
  have b: "run_body quiet_env (move 1 0 3 False ?s) = (move 1 0 3 False ?s)\<lparr>count := 1\<rparr>"
    using a move_arms_one_shot [where t = 1 and s = "move 1 0 3 False ?s" and env = quiet_env,
        THEN conjunct2]
    by (simp add: move_def emit_def node_at_def QNode_init_def)
  from pos a m f r b show ?thesis
    by blast
qed

section \<open>Callbacks without a unit under test\<close>

lemmas cb_defs = versionInfoCB_def sensorsCoreCB_def buttonEventCB_def bumperEventCB_def
  wDropEventCB_def cliffEventCB_def powerEventCB_def inputEventCB_def diagnosticsCB_def
  robotStatusCB_def

text \<open>
  C10. With no record under test, each of the ten callbacks (identification, core
  telemetry, button, bumper, wheel-drop, cliff, power, digital input, diagnostics, robot
  status) returns the node as it was.
\<close>

theorem callbacks_without_unit:
  assumes "under_test s = None"
  shows "versionInfoCB m1 s = s \<and> sensorsCoreCB m2 s = s \<and> buttonEventCB m3 s = s \<and>
         bumperEventCB m4 s = s \<and> wDropEventCB m5 s = s \<and> cliffEventCB m6 s = s \<and>
         powerEventCB m7 s = s \<and> inputEventCB m8 s = s \<and> diagnosticsCB m9 s = s \<and>
         robotStatusCB m10 s = s"
  using assms by (simp add: cb_defs)

text \<open>Before any unit is online, the node after \<open>init\<close> ignores every such message.\<close>

theorem callbacks_without_unit_witness:
  "under_test QNode_init = None \<and>
   versionInfoCB (VersionInfo (1, 2, 3) 1 1 1) QNode_init = QNode_init \<and>
   sensorsCoreCB (SensorState (5, 6) 1 160 [100, 200, 300, 400]) QNode_init = QNode_init \<and>
   buttonEventCB (ButtonEvent Button0 PRESSED) QNode_init = QNode_init \<and>
   bumperEventCB (BumperEvent 1 PRESSED) QNode_init = QNode_init \<and>
   wDropEventCB (WheelDropEvent LEFT DROPPED) QNode_init = QNode_init \<and>
   cliffEventCB (CliffEvent CLIFF_LEFT CLIFF) QNode_init = QNode_init \<and>
   powerEventCB (PowerSystemEvent PLUGGED_TO_ADAPTER) QNode_init = QNode_init \<and>
   inputEventCB (DigitalInputEvent [False, True, True, True]) QNode_init = QNode_init \<and>
   diagnosticsCB [DiagnosticStatus ''gyro'' 1 ''drift'' []] QNode_init = QNode_init \<and>
   robotStatusCB (DiagnosticStatus ''robot'' 0 ''ok'' []) QNode_init = QNode_init"
proof -
  have h: "under_test QNode_init = None"
    by (simp add: QNode_init_def)
  show ?thesis
    using h callbacks_without_unit [OF h] by simp
qed

section \<open>The gyroscope test\<close>

declare poll_camera.simps [simp del]

text \<open>
  C5 (as amended). The wrapping subtracts or adds one full turn, once. For every
  difference \<open>d\<close> with \<open>-3\<pi> < d \<le> 3\<pi>\<close> other than \<open>-\<pi>\<close> the result lies in the half-open
  interval \<open>(-\<pi>, \<pi>]\<close>.
\<close>

theorem yaw_wrap_range:
  "- 3 * pi < d \<Longrightarrow> d \<le> 3 * pi \<Longrightarrow> d \<noteq> - pi \<Longrightarrow> - pi < yaw_wrap d \<and> yaw_wrap d \<le> pi"
  by (auto simp: yaw_wrap_def)

text \<open>The difference 4 is above \<open>\<pi>\<close> and is wrapped to \<open>4 - 2\<pi>\<close>.\<close>

theorem yaw_wrap_range_witness:
  "- 3 * pi < 4 \<and> 4 \<le> 3 * pi \<and> 4 \<noteq> - pi \<and> - pi < yaw_wrap 4 \<and> yaw_wrap 4 \<le> pi"
proof -
  have h: "- 3 * pi < 4" "4 \<le> 3 * pi" "4 \<noteq> - pi"
    using pi_ge_two pi_less_4 by auto
  show ?thesis
    using h yaw_wrap_range [OF h] by blast
qed

text \<open>
  C5 as stated fails at the difference \<open>-\<pi>\<close> (onboard yaw 0 against a negated camera yaw
  \<open>\<pi>\<close>): the comparison with \<open>-\<pi>\<close> is strict, the value is returned as it is, and \<open>-\<pi>\<close>
  is not in \<open>(-\<pi>, \<pi>]\<close>.
\<close>

theorem yaw_wrap_counterexample:
  "\<not> (- pi < yaw_wrap (0 - pi) \<and> yaw_wrap (0 - pi) \<le> pi)"
  by (simp add: yaw_wrap_def)

text \<open>For the differences of two yaws in \<open>[-\<pi>, \<pi>]\<close> the result is in the closed interval.\<close>

lemma yaw_wrap_closed:
  "- 2 * pi \<le> d \<Longrightarrow> d \<le> 2 * pi \<Longrightarrow> - pi \<le> yaw_wrap d \<and> yaw_wrap d \<le> pi"
  by (auto simp: yaw_wrap_def)

lemma fold_gyro:
  "under_test s = Some r \<Longrightarrow>
   \<exists>r'. under_test (fold gyroscopeCB ys s) = Some r' \<and> same_but_yaw r r'"
proof (induction ys arbitrary: s r)
  case Nil
  then show ?case by (simp add: same_but_yaw_def)
next
  case (Cons y ys)
  let ?r1 = "r\<lparr>imu_data := (imu_data r)(4 := y)\<rparr>"
  from Cons.prems have "under_test (gyroscopeCB y s) = Some ?r1"
    by (simp add: gyroscopeCB_def set_robot_def)
  from Cons.IH [OF this] show ?case
    by (auto simp: same_but_yaw_def)
qed

lemma poll_camera_keeps:
  "under_test s = Some r \<Longrightarrow> poll_camera env i j s = (res, s') \<Longrightarrow>
   \<exists>r'. under_test s' = Some r' \<and> same_but_yaw r r' \<and>
        (\<forall>vo. res = Some vo \<longrightarrow> (\<exists>j'<80. camera_yaw env i j' = Some (- vo)))"
proof (induction env i j s arbitrary: r rule: poll_camera.induct)
  case (1 env i j s)
  show ?case
  proof (cases "j < 80")
    case False
    with "1.prems" show ?thesis
      by (simp add: poll_camera.simps [of env i j s] same_but_yaw_def)
  next
    case jl: True
    let ?s1 = "fold gyroscopeCB (gyro_feed env i j) s"
    from fold_gyro [OF "1.prems"(1)] obtain r1 where
      r1: "under_test ?s1 = Some r1" "same_but_yaw r r1" by blast
    show ?thesis
    proof (cases "camera_yaw env i j")
      case (Some y)
      with jl "1.prems"(2) have "res = Some (- y)" "s' = hideUserMsg ?s1"
        by (simp_all add: poll_camera.simps [of env i j s])
      with r1 Some jl show ?thesis
        by (auto simp: hideUserMsg_def emit_def)
    next
      case None
      let ?s2 = "showUserMsg Warn ''Gyroscope test''
                  ''Cannot recognize the check board; please place the robot right below the camera''
                  ?s1"
      from None jl "1.prems"(2) have rec: "poll_camera env i (Suc j) ?s2 = (res, s')"
        by (simp add: poll_camera.simps [of env i j s])
      have u2: "under_test ?s2 = Some r1"
        using r1 by (simp add: showUserMsg_def emit_def)
      from "1.IH" [OF jl refl None u2 rec] obtain r' where
        "under_test s' = Some r'" "same_but_yaw r1 r'"
        "\<forall>vo. res = Some vo \<longrightarrow> (\<exists>j'<80. camera_yaw env i j' = Some (- vo))"
        by blast
      with r1 show ?thesis
        by (auto simp: same_but_yaw_def)
    qed
  qed
qed

lemma imu_leg_ex:
  assumes u: "under_test s = Some r" and l: "imu_leg env i s = (ok, s')"
  shows "\<exists>r'. under_test s' = Some r' \<and> device_ok r' = device_ok r \<and>
           (\<forall>k. k \<noteq> 4 \<longrightarrow> k \<noteq> i * 2 \<longrightarrow> k \<noteq> i * 2 + 1 \<longrightarrow> imu_data r' k = imu_data r k) \<and>
           (ok \<longrightarrow> (\<exists>j<80. \<exists>y. camera_yaw env i j = Some y \<and>
                     imu_data r' (i * 2 + 1) = yaw_wrap (imu_data r' (i * 2) - (- y))))"
proof -
  obtain res s1 where p: "poll_camera env i 0 s = (res, s1)"
    by (cases "poll_camera env i 0 s")
  from poll_camera_keeps [OF u p] obtain r1 where
    r1: "under_test s1 = Some r1" "same_but_yaw r r1"
    and cam: "\<forall>vo. res = Some vo \<longrightarrow> (\<exists>j'<80. camera_yaw env i j' = Some (- vo))"
    by blast
  show ?thesis
  proof (cases res)
    case None
    with l p r1 show ?thesis
      by (auto simp: imu_leg_def state_defs same_but_yaw_def)
  next
    case (Some vo)
    with cam obtain j where j: "j < 80" "camera_yaw env i j = Some (- vo)"
      by blast
    from Some l p r1 have "ok" and
      "under_test s' = Some (set_val IMU_DEV (device_val r1 IMU_DEV + 1)
         (r1\<lparr>imu_data := (imu_data r1)(i * 2 := imu_data r1 4,
             i * 2 + 1 := yaw_wrap (imu_data r1 4 - vo))\<rparr>))"
      by (auto simp: imu_leg_def state_defs move_def Let_def)
    with r1 j show ?thesis
      by (auto simp: same_but_yaw_def set_val_def)
  qed
qed

text \<open>
  C6. With a record under test whose gyroscope is not yet verified, the gyroscope test
  leaves it verified exactly when the test ran to its end (the camera tester
  initialised and the board was recognized on both legs) and the absolute difference
  between slots 1 and 3 of the orientation buffer is at most 0.05. When the test ran to
  its end, these two slots hold the wrapped differences of the two legs: the onboard
  yaw recorded for the leg minus the negated camera yaw.
\<close>

theorem gyroscope_verified:
  assumes u: "under_test s = Some r" and nk: "\<not> device_ok r IMU_DEV"
  shows "\<exists>r'. under_test (snd (testIMU first_call env s)) = Some r' \<and>
     device_ok r' IMU_DEV =
       (fst (testIMU first_call env s) \<and>
        \<bar>imu_data r' 1 - imu_data r' 3\<bar> \<le> GYRO_CAMERA_MAX_DIFF) \<and>
     (fst (testIMU first_call env s) \<longrightarrow>
        (\<exists>j0<80. \<exists>j1<80. \<exists>y0 y1.
           camera_yaw env 0 j0 = Some y0 \<and> camera_yaw env 1 j1 = Some y1 \<and>
           imu_data r' 1 = yaw_wrap (imu_data r' 0 - (- y0)) \<and>
           imu_data r' 3 = yaw_wrap (imu_data r' 2 - (- y1))))"
proof -
  let ?s0 = "if first_call
             then showUserMsg Info ''Gyroscope test''
                    ''Place the robot with the check board right below the camera'' s
             else s"
  have u0: "under_test ?s0 = Some r"
    using u by (simp add: state_defs)
  show ?thesis
  proof (cases "imu_init env")
    case False
    with u nk show ?thesis
      by (simp add: testIMU_def state_defs)
  next
    case init: True
    obtain ok0 s1 where l0: "imu_leg env 0 ?s0 = (ok0, s1)"
      by (cases "imu_leg env 0 ?s0")
    from imu_leg_ex [OF u0 l0] obtain r1 where
      A1: "under_test s1 = Some r1 \<and> device_ok r1 = device_ok r \<and>
           (\<forall>k. k \<noteq> 4 \<longrightarrow> k \<noteq> 0 * 2 \<longrightarrow> k \<noteq> 0 * 2 + 1 \<longrightarrow> imu_data r1 k = imu_data r k) \<and>
           (ok0 \<longrightarrow> (\<exists>j<80. \<exists>y. camera_yaw env 0 j = Some y \<and>
                     imu_data r1 (0 * 2 + 1) = yaw_wrap (imu_data r1 (0 * 2) - (- y))))" ..
    then have r1: "under_test s1 = Some r1" "device_ok r1 = device_ok r"
      and c0: "ok0 \<longrightarrow> (\<exists>j<80. \<exists>y. camera_yaw env 0 j = Some y \<and>
                     imu_data r1 1 = yaw_wrap (imu_data r1 0 + y))"
      by simp_all
    show ?thesis
    proof (cases ok0)
      case False
      with init l0 r1 nk show ?thesis
        by (simp add: testIMU_def)
    next
      case k0: True
      obtain ok1 s2 where l1: "imu_leg env 1 s1 = (ok1, s2)"
        by (cases "imu_leg env 1 s1")
      from imu_leg_ex [OF r1(1) l1] obtain r2 where
        A2: "under_test s2 = Some r2 \<and> device_ok r2 = device_ok r1 \<and>
           (\<forall>k. k \<noteq> 4 \<longrightarrow> k \<noteq> 1 * 2 \<longrightarrow> k \<noteq> 1 * 2 + 1 \<longrightarrow> imu_data r2 k = imu_data r1 k) \<and>
           (ok1 \<longrightarrow> (\<exists>j<80. \<exists>y. camera_yaw env 1 j = Some y \<and>
                     imu_data r2 (1 * 2 + 1) = yaw_wrap (imu_data r2 (1 * 2) - (- y))))" ..
      then have r2: "under_test s2 = Some r2" "device_ok r2 = device_ok r1"
        and keep: "imu_data r2 0 = imu_data r1 0" "imu_data r2 1 = imu_data r1 1"
        and c1: "ok1 \<longrightarrow> (\<exists>j<80. \<exists>y. camera_yaw env 1 j = Some y \<and>
                     imu_data r2 3 = yaw_wrap (imu_data r2 2 + y))"
        by simp_all
      show ?thesis
      proof (cases ok1)
        case False
        with init l0 k0 l1 r2 r1 nk show ?thesis
          by (simp add: testIMU_def)
      next
        case ok1: True
        from c0 k0 obtain j0 y0 where
          b0: "j0 < 80" "camera_yaw env 0 j0 = Some y0"
              "imu_data r1 1 = yaw_wrap (imu_data r1 0 + y0)"
          by (elim impE exE conjE)
        from c1 ok1 obtain j1 y1 where
          b1: "j1 < 80" "camera_yaw env 1 j1 = Some y1"
              "imu_data r2 3 = yaw_wrap (imu_data r2 2 + y1)"
          by (elim impE exE conjE)
        from b0(3) keep have a0: "imu_data r2 1 = yaw_wrap (imu_data r2 0 - (- y0))"
          by simp
        from b1(3) have a1: "imu_data r2 3 = yaw_wrap (imu_data r2 2 - (- y1))"
          by simp
        have ex: "\<exists>j0<80. \<exists>j1<80. \<exists>y0 y1.
           camera_yaw env 0 j0 = Some y0 \<and> camera_yaw env 1 j1 = Some y1 \<and>
           imu_data r2 1 = yaw_wrap (imu_data r2 0 - (- y0)) \<and>
           imu_data r2 3 = yaw_wrap (imu_data r2 2 - (- y1))"
          using b0(1,2) b1(1,2) a0 a1 by blast
        from r2(2) r1(2) nk have nk2: "\<not> device_ok r2 IMU_DEV"
          by simp
        show ?thesis
        proof (cases "\<bar>imu_data r2 1 - imu_data r2 3\<bar> \<le> GYRO_CAMERA_MAX_DIFF")
          case True
          with init l0 k0 l1 ok1 r2 have eq:
            "testIMU first_call env s =
               (True, hideUserMsg (set_robot (set_ok IMU_DEV True r2)
                  (log_line Info
                     ''Gyroscope testing successful: diff 1 = %.3f / diff 2 = %.3f'' s2)))"
            by (simp add: testIMU_def)
          have "under_test (snd (testIMU first_call env s)) = Some (set_ok IMU_DEV True r2)"
            and "fst (testIMU first_call env s)"
            and "imu_data (set_ok IMU_DEV True r2) = imu_data r2"
            and "device_ok (set_ok IMU_DEV True r2) IMU_DEV"
            by (simp_all add: eq state_defs)
          with True ex show ?thesis
            by simp
        next
          case False
          with init l0 k0 l1 ok1 r2 have eq:
            "testIMU first_call env s =
               (True, hideUserMsg (log_line Warn
                  ''Gyroscope testing failed: diff 1 = %.3f / diff 2 = %.3f'' s2))"
            by (simp add: testIMU_def)
          have "under_test (snd (testIMU first_call env s)) = Some r2"
            and "fst (testIMU first_call env s)"
            by (simp_all add: eq state_defs r2)
          with False ex nk2 show ?thesis
            by simp
        qed
      qed
    qed
  qed
qed

text \<open>
  With onboard yaw 1.20: camera yaws that give the wrapped differences 0.80 and 0.83
  verify the gyroscope, those that give 0.80 and 0.90 do not.
\<close>

theorem gyroscope_verified_witness:
  "under_test gyro_node = Some gyro_robot \<and> \<not> device_ok gyro_robot IMU_DEV \<and>
   fst (testIMU True (gyro_env (- 0.40) (- 0.37)) gyro_node) \<and>
   robot_imu 1 (snd (testIMU True (gyro_env (- 0.40) (- 0.37)) gyro_node)) = 0.80 \<and>
   robot_imu 3 (snd (testIMU True (gyro_env (- 0.40) (- 0.37)) gyro_node)) = 0.83 \<and>
   robot_ok IMU_DEV (snd (testIMU True (gyro_env (- 0.40) (- 0.37)) gyro_node)) \<and>
   fst (testIMU True (gyro_env (- 0.40) (- 0.30)) gyro_node) \<and>
   robot_imu 1 (snd (testIMU True (gyro_env (- 0.40) (- 0.30)) gyro_node)) = 0.80 \<and>
   robot_imu 3 (snd (testIMU True (gyro_env (- 0.40) (- 0.30)) gyro_node)) = 0.90 \<and>
   \<not> robot_ok IMU_DEV (snd (testIMU True (gyro_env (- 0.40) (- 0.30)) gyro_node))"
proof -
  have h: "under_test gyro_node = Some gyro_robot" "\<not> device_ok gyro_robot IMU_DEV"
    by (simp_all add: gyro_node_def node_at_def gyro_robot_def new_Robot_def)
  have w: "yaw_wrap (4 / 5) = 4 / 5" "yaw_wrap (83 / 100) = 83 / 100" "yaw_wrap (9 / 10) = 9 / 10"
    using pi_ge_two by (simp_all add: yaw_wrap_def)
  note ev = testIMU_def imu_leg_def poll_camera.simps gyro_env_def gyro_node_def node_at_def
        gyro_robot_def QNode_init_def new_Robot_def state_defs move_def Let_def
        robot_imu_def robot_ok_def
  show ?thesis
    using h w gyroscope_verified [OF h, of True "gyro_env (- 0.40) (- 0.37)"]
      gyroscope_verified [OF h, of True "gyro_env (- 0.40) (- 0.30)"]
    by (simp add: ev)
qed


section \<open>The charge measurement\<close>

declare wait_charging.simps [simp del]

lemma sensorsCore_charging:
  assumes "under_test s = Some r" "current_step s = MEASURE_CHARGING"
  shows "sensorsCoreCB m s =
     (if charger m \<noteq> 0 then s\<lparr>under_test := Some (set_val CHARGING (uint (battery m)) r)\<rparr>
      else s)"
  using assms by (simp add: sensorsCoreCB_def set_robot_def)

lemma fold_sensorsCore_charging:
  "under_test s = Some r \<Longrightarrow> current_step s = MEASURE_CHARGING \<Longrightarrow>
   \<exists>v. fold sensorsCoreCB ms s = s\<lparr>under_test := Some (set_val CHARGING v r)\<rparr>"
proof (induction ms arbitrary: s r)
  case Nil
  then have "s = s\<lparr>under_test := Some (set_val CHARGING (device_val r CHARGING) r)\<rparr>"
    by (simp add: set_val_def)
  then show ?case by auto
next
  case (Cons m ms)
  show ?case
  proof (cases "charger m = 0")
    case True
    with Cons.prems have "sensorsCoreCB m s = s"
      by (simp add: sensorsCore_charging)
    with Cons show ?thesis by simp
  next
    case False
    let ?r1 = "set_val CHARGING (uint (battery m)) r"
    let ?s1 = "s\<lparr>under_test := Some ?r1\<rparr>"
    from False Cons.prems have e: "sensorsCoreCB m s = ?s1"
      by (simp add: sensorsCore_charging)
    have "under_test ?s1 = Some ?r1" "current_step ?s1 = MEASURE_CHARGING"
      using Cons.prems by simp_all
    from Cons.IH [OF this] obtain v where
      "fold sensorsCoreCB ms ?s1 = ?s1\<lparr>under_test := Some (set_val CHARGING v ?r1)\<rparr>" ..
    with e have "fold sensorsCoreCB (m # ms) s = s\<lparr>under_test := Some (set_val CHARGING v r)\<rparr>"
      by (simp add: set_val_def)
    then show ?thesis ..
  qed
qed

lemma fold_sensorsCore_quiet:
  "under_test s = Some r \<Longrightarrow> current_step s = MEASURE_CHARGING \<Longrightarrow>
   \<forall>m\<in>set ms. charger m = 0 \<Longrightarrow> fold sensorsCoreCB ms s = s"
  by (induction ms) (simp_all add: sensorsCore_charging)

lemma wait_charging_shape:
  "under_test s = Some r \<Longrightarrow> current_step s = MEASURE_CHARGING \<Longrightarrow>
   \<exists>v. wait_charging env i s = s\<lparr>under_test := Some (set_val CHARGING v r)\<rparr>"
proof (induction env i s arbitrary: r rule: wait_charging.induct)
  case (1 env i s)
  show ?case
  proof (cases "int i < 40 * frequency \<and> robot_val CHARGING s = 0")
    case False
    then have "wait_charging env i s = s"
      by (auto simp: wait_charging.simps [of env i s])
    also from "1.prems" have "s = s\<lparr>under_test := Some (set_val CHARGING (device_val r CHARGING) r)\<rparr>"
      by (simp add: set_val_def)
    finally show ?thesis ..
  next
    case True
    let ?s1 = "fold sensorsCoreCB (wait_feed env i) s"
    from fold_sensorsCore_charging [OF "1.prems"] obtain v where
      v: "?s1 = s\<lparr>under_test := Some (set_val CHARGING v r)\<rparr>" ..
    then have "under_test ?s1 = Some (set_val CHARGING v r)" "current_step ?s1 = MEASURE_CHARGING"
      using "1.prems" by simp_all
    from "1.IH" [OF True this] obtain v' where
      "wait_charging env (Suc i) ?s1 =
         ?s1\<lparr>under_test := Some (set_val CHARGING v' (set_val CHARGING v r))\<rparr>" ..
    with v True have "wait_charging env i s = s\<lparr>under_test := Some (set_val CHARGING v' r)\<rparr>"
      by (simp add: wait_charging.simps [of env i s] set_val_def)
    then show ?thesis ..
  qed
qed

lemma wait_charging_quiet:
  "under_test s = Some r \<Longrightarrow> current_step s = MEASURE_CHARGING \<Longrightarrow>
   \<forall>k<800. \<forall>m\<in>set (wait_feed env k). charger m = 0 \<Longrightarrow> wait_charging env i s = s"
proof (induction env i s rule: wait_charging.induct)
  case (1 env i s)
  show ?case
  proof (cases "int i < 40 * frequency \<and> robot_val CHARGING s = 0")
    case False
    then show ?thesis
      by (auto simp: wait_charging.simps [of env i s])
  next
    case True
    then have "i < 800" by simp
    with "1.prems" have q: "fold sensorsCoreCB (wait_feed env i) s = s"
      by (simp add: fold_sensorsCore_quiet)
    from "1.IH" [OF True] "1.prems" q have "wait_charging env (Suc i) s = s"
      by simp
    with True q show ?thesis
      by (simp add: wait_charging.simps [of env i s])
  qed
qed

lemma errors_logged_simps [simp]:
  "errors_logged (s\<lparr>under_test := x\<rparr>) = errors_logged s"
  "errors_logged (hideUserMsg s) = errors_logged s"
  "errors_logged (showUserMsg l a b s) = errors_logged s"
  "errors_logged (log_line Error m s) = errors_logged s + 1"
  "errors_logged (log_line Info m s) = errors_logged s"
  "errors_logged (log_line Warn m s) = errors_logged s"
  by (simp_all add: errors_logged_def is_error_log_def state_defs)

text \<open>
  C7. At the charging step, with a record under test whose charging device is not yet
  verified: if the charging value is 0 and no telemetry with a nonzero charger signal
  arrives during the 800 waiting sleeps (40 seconds at 20 Hz), the value is still 0 when
  the wait ends. When it is 0 then, the measurement aborts: the device stays unverified
  and exactly one error line is logged. Otherwise the measurement runs to its end
  without an error line, with \<open>v1\<close> the value after the settle interval and \<open>v2\<close> the
  value after the measurement window (both as \<open>uint8_t\<close>): the measured value becomes
  \<open>v2 - v1\<close> and the device is verified exactly when \<open>v2 - v1 \<ge> 2\<close>.
\<close>

theorem charge_measurement:
  assumes u: "under_test s = Some r" and c: "current_step s = MEASURE_CHARGING"
    and nk: "\<not> device_ok r CHARGING"
  shows
    "(device_val r CHARGING = 0 \<and> (\<forall>k<800. \<forall>m\<in>set (wait_feed env k). charger m = 0) \<longrightarrow>
        robot_val CHARGING (charge_waited first_call env s) = 0) \<and>
     (robot_val CHARGING (charge_waited first_call env s) = 0 \<longrightarrow>
        \<not> fst (measureCharge first_call env s) \<and>
        \<not> robot_ok CHARGING (snd (measureCharge first_call env s)) \<and>
        errors_logged (snd (measureCharge first_call env s)) = errors_logged s + 1) \<and>
     (robot_val CHARGING (charge_waited first_call env s) \<noteq> 0 \<longrightarrow>
        fst (measureCharge first_call env s) \<and>
        robot_val CHARGING (snd (measureCharge first_call env s)) =
          uint8 (robot_val CHARGING (charge_measured first_call env s)) -
          uint8 (robot_val CHARGING (charge_settled first_call env s)) \<and>
        robot_ok CHARGING (snd (measureCharge first_call env s)) =
          (uint8 (robot_val CHARGING (charge_measured first_call env s)) -
           uint8 (robot_val CHARGING (charge_settled first_call env s)) \<ge> MIN_POWER_CHARGED) \<and>
        errors_logged (snd (measureCharge first_call env s)) = errors_logged s)"
proof -
  let ?s0 = "if first_call
             then showUserMsg Info ''Charge measurement''
                    ''Plug the adaptor to the robot and wait %d seconds'' s
             else s"
  have u0: "under_test ?s0 = Some r" and c0: "current_step ?s0 = MEASURE_CHARGING"
    and e0: "errors_logged ?s0 = errors_logged s"
    using u c by (simp_all add: showUserMsg_def emit_def errors_logged_def is_error_log_def)
  from wait_charging_shape [OF u0 c0] obtain a where
    a: "wait_charging env 0 ?s0 = ?s0\<lparr>under_test := Some (set_val CHARGING a r)\<rparr>" ..
  let ?r1 = "set_val CHARGING a r"
  let ?s1 = "charge_waited first_call env s"
  have s1: "?s1 = hideUserMsg (?s0\<lparr>under_test := Some ?r1\<rparr>)"
    by (simp only: charge_waited_def a)
  have u1: "under_test ?s1 = Some ?r1" and c1: "current_step ?s1 = MEASURE_CHARGING"
    and e1: "errors_logged ?s1 = errors_logged s"
    unfolding s1 using c0 e0
    by (simp_all add: hideUserMsg_def emit_def errors_logged_def is_error_log_def)
  have quiet: "robot_val CHARGING ?s1 = 0"
    if "device_val r CHARGING = 0" "\<forall>k<800. \<forall>m\<in>set (wait_feed env k). charger m = 0"
  proof -
    from wait_charging_quiet [OF u0 c0 that(2)] have "wait_charging env 0 ?s0 = ?s0" .
    then have "?s1 = hideUserMsg ?s0"
      by (simp only: charge_waited_def)
    with u0 that(1) show ?thesis
      by (simp add: robot_val_def hideUserMsg_def emit_def)
  qed
  have abort: "\<not> fst (measureCharge first_call env s) \<and>
        \<not> robot_ok CHARGING (snd (measureCharge first_call env s)) \<and>
        errors_logged (snd (measureCharge first_call env s)) = errors_logged s + 1"
    if z: "robot_val CHARGING ?s1 = 0"
  proof -
    from z have "measureCharge first_call env s =
       (False, log_line Error
          ''Adaptor not plugged after 40 seconds; aborting charge measurement'' ?s1)"
      by (simp add: measureCharge_def)
    with u1 e1 nk show ?thesis
      by (simp add: robot_ok_def log_line_def emit_def set_val_def errors_logged_def
          is_error_log_def)
  qed
  let ?s2 = "charge_settled first_call env s"
  let ?s3 = "charge_measured first_call env s"
  from fold_sensorsCore_charging [OF u1 c1] obtain b where
    "fold sensorsCoreCB (settle_feed env) ?s1 = ?s1\<lparr>under_test := Some (set_val CHARGING b ?r1)\<rparr>" ..
  then have s2: "?s2 = ?s1\<lparr>under_test := Some (set_val CHARGING b ?r1)\<rparr>"
    by (simp only: charge_settled_def)
  have u2: "under_test ?s2 = Some (set_val CHARGING b ?r1)"
    and c2: "current_step ?s2 = MEASURE_CHARGING" and e2: "errors_logged ?s2 = errors_logged s"
    unfolding s2 using c1 e1 by (simp_all add: errors_logged_def)
  from fold_sensorsCore_charging [OF u2 c2] obtain d where
    "fold sensorsCoreCB (window_feed env) ?s2 =
       ?s2\<lparr>under_test := Some (set_val CHARGING d (set_val CHARGING b ?r1))\<rparr>" ..
  then have s3: "?s3 = ?s2\<lparr>under_test := Some (set_val CHARGING d (set_val CHARGING b ?r1))\<rparr>"
    by (simp only: charge_measured_def)
  let ?r3 = "set_val CHARGING d (set_val CHARGING b ?r1)"
  have u3: "under_test ?s3 = Some ?r3" and e3: "errors_logged ?s3 = errors_logged s"
    unfolding s3 using e2 by (simp_all add: errors_logged_def)
  have ok3: "\<not> device_ok ?r3 CHARGING"
    using nk by (simp add: set_val_def)
  have measured: "fst (measureCharge first_call env s) \<and>
        robot_val CHARGING (snd (measureCharge first_call env s)) =
          uint8 (robot_val CHARGING ?s3) - uint8 (robot_val CHARGING ?s2) \<and>
        robot_ok CHARGING (snd (measureCharge first_call env s)) =
          (uint8 (robot_val CHARGING ?s3) - uint8 (robot_val CHARGING ?s2) \<ge> MIN_POWER_CHARGED) \<and>
        errors_logged (snd (measureCharge first_call env s)) = errors_logged s"
    if nz: "robot_val CHARGING ?s1 \<noteq> 0"
  proof (cases "uint8 (robot_val CHARGING ?s3) - uint8 (robot_val CHARGING ?s2) \<ge> 2")
    case True
    with nz u3 have "measureCharge first_call env s =
       (True, set_robot (set_ok CHARGING True
          (set_val CHARGING (uint8 (robot_val CHARGING ?s3) - uint8 (robot_val CHARGING ?s2)) ?r3))
          (log_line Info ''Charge measurement: %.1f V in %d seconds'' ?s3))"
      by (simp add: measureCharge_def Let_def set_val_def)
    with True e3 show ?thesis
      by (simp add: robot_val_def robot_ok_def set_robot_def set_ok_def set_val_def
          errors_logged_def log_line_def emit_def is_error_log_def)
  next
    case False
    with nz u3 have "measureCharge first_call env s =
       (True, set_robot
          (set_val CHARGING (uint8 (robot_val CHARGING ?s3) - uint8 (robot_val CHARGING ?s2)) ?r3)
          (log_line Warn ''Charge measurement: %.1f V in %d seconds'' ?s3))"
      by (simp add: measureCharge_def Let_def set_val_def)
    with False e3 ok3 show ?thesis
      by (simp add: robot_val_def robot_ok_def set_robot_def set_ok_def set_val_def
          errors_logged_def log_line_def emit_def is_error_log_def)
  qed
  from quiet abort measured show ?thesis
    by blast
qed

text \<open>
  With nothing arriving the measurement aborts with one error line; with the battery at
  40 when charging starts and at 55 after the measurement window, the measured value is
  15 and the device is verified.
\<close>

theorem charge_measurement_witness:
  "under_test (node_at MEASURE_CHARGING (new_Robot 0)) = Some (new_Robot 0) \<and>
   current_step (node_at MEASURE_CHARGING (new_Robot 0)) = MEASURE_CHARGING \<and>
   \<not> device_ok (new_Robot 0) CHARGING \<and>
   device_val (new_Robot 0) CHARGING = 0 \<and> wait_feed quiet_env = (\<lambda>k. []) \<and>
   \<not> fst (measureCharge True quiet_env (node_at MEASURE_CHARGING (new_Robot 0))) \<and>
   \<not> robot_ok CHARGING (snd (measureCharge True quiet_env (node_at MEASURE_CHARGING (new_Robot 0)))) \<and>
   errors_logged (snd (measureCharge True quiet_env (node_at MEASURE_CHARGING (new_Robot 0)))) = 1 \<and>
   uint8 (robot_val CHARGING
            (charge_settled True (charge_env 40 55) (node_at MEASURE_CHARGING (new_Robot 0)))) = 40 \<and>
   uint8 (robot_val CHARGING
            (charge_measured True (charge_env 40 55) (node_at MEASURE_CHARGING (new_Robot 0)))) = 55 \<and>
   fst (measureCharge True (charge_env 40 55) (node_at MEASURE_CHARGING (new_Robot 0))) \<and>
   robot_val CHARGING
     (snd (measureCharge True (charge_env 40 55) (node_at MEASURE_CHARGING (new_Robot 0)))) = 15 \<and>
   robot_ok CHARGING
     (snd (measureCharge True (charge_env 40 55) (node_at MEASURE_CHARGING (new_Robot 0))))"
proof -
  let ?s = "node_at MEASURE_CHARGING (new_Robot 0)"
  have h: "under_test ?s = Some (new_Robot 0)" "current_step ?s = MEASURE_CHARGING"
    "\<not> device_ok (new_Robot 0) CHARGING"
    by (simp_all add: node_at_def QNode_init_def new_Robot_def)
  have q: "device_val (new_Robot 0) CHARGING = 0" "wait_feed quiet_env = (\<lambda>k. [])"
    and e: "errors_logged ?s = 0"
    by (simp_all add: new_Robot_def quiet_env_def errors_logged_def node_at_def QNode_init_def)
  have w: "charge_waited True (charge_env 40 55) ?s =
      ?s\<lparr>under_test := Some (set_val CHARGING 40 (new_Robot 0)),
         outputs := [ShowUserMsg Info ''Charge measurement''
                       ''Plug the adaptor to the robot and wait %d seconds'', HideUserMsg]\<rparr>"
    by (simp add: charge_waited_def wait_charging.simps charge_env_def node_at_def QNode_init_def
        sensorsCoreCB_def robot_val_def state_defs new_Robot_def)
  have v: "robot_val CHARGING (charge_waited True (charge_env 40 55) ?s) \<noteq> 0"
    "uint8 (robot_val CHARGING (charge_settled True (charge_env 40 55) ?s)) = 40"
    "uint8 (robot_val CHARGING (charge_measured True (charge_env 40 55) ?s)) = 55"
    unfolding charge_measured_def charge_settled_def w
    by (simp_all add: charge_env_def node_at_def QNode_init_def sensorsCoreCB_def robot_val_def
        uint8_def state_defs)
  show ?thesis
    using h q e v charge_measurement [OF h, of quiet_env True]
      charge_measurement [OF h, of "charge_env 40 55" True]
    by simp
qed


section \<open>The analog-threshold scan\<close>

lemma bit_20: "bit (20::int) n \<longleftrightarrow> n = 2 \<or> n = 4"
proof (cases "n < 5")
  case True
  then consider "n = 0" | "n = 1" | "n = 2" | "n = 3" | "n = 4"
    by linarith
  then show ?thesis
    by cases simp_all
next
  case False
  then have "(2::int) ^ 5 \<le> 2 ^ n"
    by (intro power_increasing) simp_all
  then have "(20::int) div 2 ^ n = 0"
    by (simp add: div_pos_pos_trivial)
  with False show ?thesis
    by (simp add: bit_iff_odd)
qed

lemma low16: "(v::int) AND 0xFFFF = v mod 65536"
proof -
  have "v AND mask 16 = v mod 2 ^ 16"
    by (simp flip: take_bit_eq_mask add: take_bit_eq_mod)
  then show ?thesis
    by (simp add: mask_eq_exp_minus_1)
qed

lemma bit_low16: "bit ((v::int) AND 0xFFFF) n \<longleftrightarrow> bit v n \<and> n < 16"
proof -
  have "(0xFFFF::int) = mask 16"
    by (simp add: mask_eq_exp_minus_1)
  then have "bit (v AND 0xFFFF) n = bit (v AND mask 16) n"
    by simp
  then show ?thesis
    by (simp only: bit_and_iff bit_mask_iff) auto
qed

lemma dec_div:
  assumes c: "0 < (v::int) mod 65536"
  shows "(v - 1) div 65536 = v div 65536" and "(v - 1) mod 65536 = v mod 65536 - 1"
proof -
  have e: "v - 1 = (v mod 65536 - 1) + (v div 65536) * 65536"
    by simp
  have b: "0 \<le> v mod 65536 - 1" "v mod 65536 - 1 < 65536"
    using c by simp_all
  have "(v - 1) div 65536 = v div 65536 + (v mod 65536 - 1) div 65536"
    by (subst e, subst div_mult_self1) simp_all
  with b show "(v - 1) div 65536 = v div 65536"
    by (simp add: div_pos_pos_trivial)
  have "(v - 1) mod 65536 = (v mod 65536 - 1) mod 65536"
    by (subst e) (simp only: mod_mult_self1)
  with b show "(v - 1) mod 65536 = v mod 65536 - 1"
    by (simp add: mod_pos_pos_trivial)
qed

lemma dec_high:
  assumes p: "(v::int) AND 0xFFFF > 0" and n: "16 \<le> n"
  shows "bit (v - 1) n = bit v n"
proof -
  from p have c: "0 < v mod 65536"
    by (simp add: low16)
  then have "drop_bit 16 (v - 1) = drop_bit 16 v"
    by (simp add: drop_bit_eq_div dec_div)
  then have "bit (drop_bit 16 (v - 1)) (n - 16) = bit (drop_bit 16 v) (n - 16)"
    by simp
  with n show ?thesis
    by (simp add: bit_drop_bit_eq)
qed

lemma push_bit_pow: "push_bit m ((2::int) ^ i) = 2 ^ (m + i)"
  by (simp add: push_bit_eq_mult power_add mult.commute)

lemma and_pow_zero: "(v::int) AND 2 ^ k = 0 \<longleftrightarrow> \<not> bit v k"
  by (simp add: and_exp_eq_0_iff_not_bit)

lemma channel_value:
  "fst (analog_channel i row acc) =
     (let v1 = (if \<not> bit (fst acc) (16 + i) \<and> AI_MIN row \<le> 2
                then cover (16 + i) (fst acc) else fst acc)
      in if \<not> bit v1 (24 + i) \<and> AI_MAX row \<ge> 4090 then cover (24 + i) v1 else v1)"
  by (simp add: analog_channel_def Let_def push_bit_pow and_pow_zero cover_def)

lemma bit_cover: "bit (cover k v) n \<longleftrightarrow> bit v n \<or> n = k \<or> n = 2 \<or> n = 4"
  by (auto simp: cover_def bit_or_iff bit_exp_iff bit_20)

lemma low16_cover:
  assumes "16 \<le> k"
  shows "cover k v AND 0xFFFF = (v AND 0xFFFF) OR 20"
proof (rule bit_eqI)
  fix n
  show "bit (cover k v AND 0xFFFF) n = bit ((v AND 0xFFFF) OR 20) n"
    using assms by (auto simp: bit_low16 bit_cover bit_or_iff bit_20)
qed

lemma or20_idem: "((x::int) OR 20) OR 20 = x OR 20"
  by (simp add: or.assoc)

lemma channel_high_bits:
  assumes "16 \<le> n"
  shows "bit (fst (analog_channel i row acc)) n \<longleftrightarrow>
     bit (fst acc) n \<or> (n = 16 + i \<and> AI_MIN row \<le> 2) \<or> (n = 24 + i \<and> AI_MAX row \<ge> 4090)"
proof (cases "\<not> bit (fst acc) (16 + i) \<and> AI_MIN row \<le> 2";
       cases "\<not> bit (fst acc) (24 + i) \<and> AI_MAX row \<ge> 4090")
qed (use assms in \<open>auto simp: channel_value bit_cover\<close>)

lemma channel_pulse:
  "(\<forall>n. bit (fst acc) n \<longrightarrow> bit (fst (analog_channel i row acc)) n) \<and>
   (fst (analog_channel i row acc) = fst acc \<or>
    (fst (analog_channel i row acc) AND 0xFFFF = (fst acc AND 0xFFFF) OR 20 \<and>
     (\<exists>n\<ge>16. bit (fst (analog_channel i row acc)) n \<and> \<not> bit (fst acc) n)))"
proof -
  let ?a = "fst acc" and ?a' = "fst (analog_channel i row acc)"
  have mono: "\<forall>n. bit ?a n \<longrightarrow> bit ?a' n"
    by (simp add: channel_value Let_def bit_cover)
  have new: "?a' AND 0xFFFF = (?a AND 0xFFFF) OR 20 \<and> (\<exists>n\<ge>16. bit ?a' n \<and> \<not> bit ?a n)"
    if c: "(\<not> bit ?a (16 + i) \<and> AI_MIN row \<le> 2) \<or> (\<not> bit ?a (24 + i) \<and> AI_MAX row \<ge> 4090)"
  proof -
    have low: "?a' AND 0xFFFF = (?a AND 0xFFFF) OR 20"
      using c by (auto simp: channel_value Let_def low16_cover or20_idem)
    from c obtain k where k: "k = 16 + i \<or> k = 24 + i" "\<not> bit ?a k" "bit ?a' k"
    proof
      assume "\<not> bit ?a (16 + i) \<and> AI_MIN row \<le> 2"
      then have "\<not> bit ?a (16 + i)" "bit ?a' (16 + i)"
        by (simp_all add: channel_high_bits)
      then show ?thesis
        using that by blast
    next
      assume "\<not> bit ?a (24 + i) \<and> AI_MAX row \<ge> 4090"
      then have "\<not> bit ?a (24 + i)" "bit ?a' (24 + i)"
        by (simp_all add: channel_high_bits)
      then show ?thesis
        using that by blast
    qed
    from k(1) have "16 \<le> k" by auto
    with k(2,3) have "\<exists>n\<ge>16. bit ?a' n \<and> \<not> bit ?a n"
      by blast
    with low show ?thesis ..
  qed
  have same: "?a' = ?a"
    if "\<not> ((\<not> bit ?a (16 + i) \<and> AI_MIN row \<le> 2) \<or> (\<not> bit ?a (24 + i) \<and> AI_MAX row \<ge> 4090))"
    using that by (auto simp: channel_value Let_def)
  from mono new same show ?thesis
    by blast
qed

lemma scan_high_bits:
  assumes "16 \<le> n"
  shows "bit (fst (analog_scan i rows acc)) n \<longleftrightarrow>
     bit (fst acc) n \<or>
     (\<exists>k<length rows. (n = 16 + (i + k) \<and> AI_MIN (rows ! k) \<le> 2) \<or>
                       (n = 24 + (i + k) \<and> AI_MAX (rows ! k) \<ge> 4090))"
proof (induction rows arbitrary: i acc)
  case Nil
  show ?case by simp
next
  case (Cons row rows)
  have "(\<exists>k<length (row # rows). (n = 16 + (i + k) \<and> AI_MIN ((row # rows) ! k) \<le> 2) \<or>
                       (n = 24 + (i + k) \<and> AI_MAX ((row # rows) ! k) \<ge> 4090)) \<longleftrightarrow>
        ((n = 16 + i \<and> AI_MIN row \<le> 2) \<or> (n = 24 + i \<and> AI_MAX row \<ge> 4090)) \<or>
        (\<exists>k<length rows. (n = 16 + (Suc i + k) \<and> AI_MIN (rows ! k) \<le> 2) \<or>
                       (n = 24 + (Suc i + k) \<and> AI_MAX (rows ! k) \<ge> 4090))"
    by (simp only: length_Cons Ex_less_Suc2 nth_Cons_0 nth_Cons_Suc) auto
  then show ?case
    using assms by (simp add: Cons.IH channel_high_bits del: length_Cons nth_Cons_Suc)
qed

lemma scan_pulse:
  "(\<forall>n. bit (fst acc) n \<longrightarrow> bit (fst (analog_scan i rows acc)) n) \<and>
   (fst (analog_scan i rows acc) = fst acc \<or>
    (fst (analog_scan i rows acc) AND 0xFFFF = (fst acc AND 0xFFFF) OR 20 \<and>
     (\<exists>n\<ge>16. bit (fst (analog_scan i rows acc)) n \<and> \<not> bit (fst acc) n)))"
proof (induction rows arbitrary: i acc)
  case Nil
  show ?case by simp
next
  case (Cons row rows)
  let ?m = "analog_channel i row acc"
  let ?f = "analog_scan (Suc i) rows ?m"
  note c = channel_pulse [of acc i row] and h = Cons.IH [of ?m "Suc i"]
  have mono: "\<forall>n. bit (fst acc) n \<longrightarrow> bit (fst ?f) n"
    using c h by blast
  have "fst ?f = fst acc \<or>
    (fst ?f AND 0xFFFF = (fst acc AND 0xFFFF) OR 20 \<and> (\<exists>n\<ge>16. bit (fst ?f) n \<and> \<not> bit (fst acc) n))"
  proof (cases "fst ?m = fst acc")
    case True
    with h show ?thesis by simp
  next
    case False
    with c have m: "fst ?m AND 0xFFFF = (fst acc AND 0xFFFF) OR 20"
      and n: "\<exists>n\<ge>16. bit (fst ?m) n \<and> \<not> bit (fst acc) n"
      by blast+
    from n h have n': "\<exists>n\<ge>16. bit (fst ?f) n \<and> \<not> bit (fst acc) n"
      by blast
    from h m have "fst ?f AND 0xFFFF = (fst acc AND 0xFFFF) OR 20"
      by (auto simp: or20_idem)
    with n' show ?thesis by blast
  qed
  with mono show ?case by simp
qed


lemma update_analog_length [simp]: "length (update_analog i as rows) = length rows"
  by (induction as arbitrary: i rows) simp_all

lemma update_analog_min_max:
  "k < length rows \<Longrightarrow>
   AI_MIN (update_analog i as rows ! k) =
     (if i \<le> k \<and> k < i + length as
      then min (AI_MIN (rows ! k)) (int16 (uint (as ! (k - i)))) else AI_MIN (rows ! k)) \<and>
   AI_MAX (update_analog i as rows ! k) =
     (if i \<le> k \<and> k < i + length as
      then max (AI_MAX (rows ! k)) (int16 (uint (as ! (k - i)))) else AI_MAX (rows ! k))"
proof (induction as arbitrary: i rows)
  case Nil
  then show ?case by simp
next
  case (Cons a as)
  show ?case
  proof (cases "k = i")
    case True
    with Cons.prems Cons.IH [of "rows[i := \<lparr>AI_INC = int16 (uint a - AI_PRE (rows ! i)),
                     AI_PRE = int16 (uint a),
                     AI_MIN = min (AI_MIN (rows ! i)) (int16 (uint a)),
                     AI_MAX = max (AI_MAX (rows ! i)) (int16 (uint a))\<rparr>]" "Suc i"]
    show ?thesis by simp
  next
    case False
    with Cons.prems Cons.IH [of "rows[i := \<lparr>AI_INC = int16 (uint a - AI_PRE (rows ! i)),
                     AI_PRE = int16 (uint a),
                     AI_MIN = min (AI_MIN (rows ! i)) (int16 (uint a)),
                     AI_MAX = max (AI_MAX (rows ! i)) (int16 (uint a))\<rparr>]" "Suc i"]
      Cons.IH [of rows "Suc i"]
    show ?thesis
      by (cases "i < k") (auto simp: nth_Cons')
  qed
qed

lemma testAnalogIn_result:
  assumes u: "under_test s = Some r"
  shows "robot_val A_INPUT (snd (testAnalogIn first_call s)) =
           fst (analog_scan 0 (analog_in r) (analog_ticked first_call r, []))"
    and "fst (testAnalogIn first_call s) =
           (fst (analog_scan 0 (analog_in r) (analog_ticked first_call r, [])) = 0x0F0F0000)"
    and "current_step (snd (testAnalogIn first_call s)) =
           (if fst (testAnalogIn first_call s) then Suc (current_step s) else current_step s)"
    and "robot_ok A_INPUT (snd (testAnalogIn first_call s)) =
           (fst (testAnalogIn first_call s) \<or> device_ok r A_INPUT)"
  using u
  by (simp_all add: testAnalogIn_def Let_def analog_ticked_def analog_start_def countdown_def
      robot_val_def robot_ok_def state_defs)


lemma done_value:
  "i < 4 \<Longrightarrow> bit (0x0F0F0000::int) (16 + i) \<and> bit (0x0F0F0000::int) (24 + i)"
  "(0x0F0F0000::int) AND 0xFFFF = 0"
proof -
  assume "i < 4"
  then consider "i = 0" | "i = 1" | "i = 2" | "i = 3"
    by linarith
  then show "bit (0x0F0F0000::int) (16 + i) \<and> bit (0x0F0F0000::int) (24 + i)"
    by cases simp_all
next
  show "(0x0F0F0000::int) AND 0xFFFF = 0"
    by simp
qed

lemma ticked:
  "countdown (analog_ticked first_call r) =
     (if countdown (analog_start first_call r) > 0
      then countdown (analog_start first_call r) - 1 else 0)"
  "16 \<le> n \<Longrightarrow> bit (analog_ticked first_call r) n = bit (analog_start first_call r) n"
proof -
  let ?v = "analog_start first_call r"
  have nn: "0 \<le> countdown ?v"
    by (simp add: countdown_def low16)
  show "countdown (analog_ticked first_call r) =
     (if countdown ?v > 0 then countdown ?v - 1 else 0)"
  proof (cases "countdown ?v > 0")
    case True
    then show ?thesis
      by (simp add: analog_ticked_def countdown_def low16 dec_div)
  next
    case False
    with nn have "countdown ?v = 0" by simp
    with False show ?thesis
      by (simp add: analog_ticked_def)
  qed
  show "bit (analog_ticked first_call r) n = bit ?v n" if "16 \<le> n"
    using that by (simp add: analog_ticked_def countdown_def dec_high)
qed

text \<open>
  C8. With a record under test that has four analog channels, one call of
  \<open>testAnalogIn\<close> from the value \<open>v0\<close> (0 on the first call) gives the value \<open>v'\<close> with:
  channel \<open>i\<close> is covered-low in \<open>v'\<close> exactly when it was in \<open>v0\<close> or its running minimum
  is at most the lower threshold 2, and covered-high exactly when it was or its running
  maximum is at least the upper threshold 4090; the countdown first goes down by one
  tick when positive; if a channel is newly covered the countdown becomes the ticked
  countdown OR 20 (20 ticks are one second at 20 Hz), otherwise the value is the ticked
  one; the call reports completion exactly when \<open>v'\<close> is \<open>0x0F0F0000\<close>, and then every
  channel is covered both ways, the countdown is zero, the device is verified and the
  step has advanced by one; otherwise the verified flag and the step are unchanged.
  The running minimum and maximum are kept by the core-telemetry callback at the
  analog-input step: each sample updates its channel's minimum and maximum.
\<close>

theorem analog_threshold_scan:
  assumes u: "under_test s = Some r" and n: "length (analog_in r) = 4"
  shows
    "(let v0 = analog_start first_call r;
          v1 = analog_ticked first_call r;
          finished = fst (testAnalogIn first_call s);
          s' = snd (testAnalogIn first_call s);
          v' = robot_val A_INPUT s';
          newly = (\<exists>i<4. (covered_low i v' \<and> \<not> covered_low i v0) \<or>
                          (covered_high i v' \<and> \<not> covered_high i v0))
      in
        (\<forall>i<4. covered_low i v' =
                 (covered_low i v0 \<or> AI_MIN (analog_in r ! i) \<le> A_INPUT_MIN_THRESHOLD)) \<and>
        (\<forall>i<4. covered_high i v' =
                 (covered_high i v0 \<or> AI_MAX (analog_in r ! i) \<ge> A_INPUT_MAX_THRESHOLD)) \<and>
        countdown v1 = (if countdown v0 > 0 then countdown v0 - 1 else 0) \<and>
        (newly \<longrightarrow> countdown v' = countdown v1 OR frequency) \<and>
        (\<not> newly \<longrightarrow> v' = v1) \<and>
        finished = (v' = 0x0F0F0000) \<and>
        (finished \<longrightarrow>
           (\<forall>i<4. covered_low i v' \<and> covered_high i v') \<and> countdown v' = 0 \<and>
           robot_ok A_INPUT s' \<and> current_step s' = Suc (current_step s)) \<and>
        (\<not> finished \<longrightarrow>
           robot_ok A_INPUT s' = device_ok r A_INPUT \<and> current_step s' = current_step s)) \<and>
     (current_step s = TEST_ANALOG_INPUT_PORTS \<longrightarrow> length (analog_input m) = 4 \<longrightarrow>
        (\<exists>r'. under_test (sensorsCoreCB m s) = Some r' \<and>
           (\<forall>i<4. AI_MIN (analog_in r' ! i) =
                     min (AI_MIN (analog_in r ! i)) (int16 (uint (analog_input m ! i))) \<and>
                   AI_MAX (analog_in r' ! i) =
                     max (AI_MAX (analog_in r ! i)) (int16 (uint (analog_input m ! i))))))"
proof -
  let ?v0 = "analog_start first_call r" and ?v1 = "analog_ticked first_call r"
  let ?res = "testAnalogIn first_call s"
  let ?v' = "robot_val A_INPUT (snd ?res)"
  note R = testAnalogIn_result [OF u, of first_call]
  have v': "?v' = fst (analog_scan 0 (analog_in r) (?v1, []))"
    by (rule R(1))
  have low: "covered_low i ?v' = (covered_low i ?v0 \<or> AI_MIN (analog_in r ! i) \<le> 2)"
    if "i < 4" for i
  proof -
    have "bit ?v' (16 + i) \<longleftrightarrow> bit ?v1 (16 + i) \<or>
        (\<exists>k<4. (16 + i = 16 + (0 + k) \<and> AI_MIN (analog_in r ! k) \<le> 2) \<or>
                (16 + i = 24 + (0 + k) \<and> AI_MAX (analog_in r ! k) \<ge> 4090))"
      unfolding v' by (subst scan_high_bits) (simp_all add: n)
    also have "(\<exists>k<4. (16 + i = 16 + (0 + k) \<and> AI_MIN (analog_in r ! k) \<le> 2) \<or>
                (16 + i = 24 + (0 + k) \<and> AI_MAX (analog_in r ! k) \<ge> 4090)) \<longleftrightarrow>
        AI_MIN (analog_in r ! i) \<le> 2"
      using that by auto
    finally show ?thesis
      by (simp add: covered_low_def ticked(2))
  qed
  have high: "covered_high i ?v' = (covered_high i ?v0 \<or> AI_MAX (analog_in r ! i) \<ge> 4090)"
    if "i < 4" for i
  proof -
    have "bit ?v' (24 + i) \<longleftrightarrow> bit ?v1 (24 + i) \<or>
        (\<exists>k<4. (24 + i = 16 + (0 + k) \<and> AI_MIN (analog_in r ! k) \<le> 2) \<or>
                (24 + i = 24 + (0 + k) \<and> AI_MAX (analog_in r ! k) \<ge> 4090))"
      unfolding v' by (subst scan_high_bits) (simp_all add: n)
    also have "(\<exists>k<4. (24 + i = 16 + (0 + k) \<and> AI_MIN (analog_in r ! k) \<le> 2) \<or>
                (24 + i = 24 + (0 + k) \<and> AI_MAX (analog_in r ! k) \<ge> 4090)) \<longleftrightarrow>
        AI_MAX (analog_in r ! i) \<ge> 4090"
      using that by auto
    finally show ?thesis
      by (simp add: covered_high_def ticked(2))
  qed
  let ?newly = "\<exists>i<4. (covered_low i ?v' \<and> \<not> covered_low i ?v0) \<or>
                      (covered_high i ?v' \<and> \<not> covered_high i ?v0)"
  note P = scan_pulse [of "(?v1, [])" 0 "analog_in r"]
  have pulse: "countdown ?v' = countdown ?v1 OR frequency" if ?newly
  proof -
    from that obtain i where
      "(covered_low i ?v' \<and> \<not> covered_low i ?v0) \<or> (covered_high i ?v' \<and> \<not> covered_high i ?v0)"
      by (elim exE conjE)
    then obtain k where "16 \<le> k" "bit ?v' k" "\<not> bit ?v0 k"
    proof
      assume "covered_low i ?v' \<and> \<not> covered_low i ?v0"
      then have "16 \<le> 16 + i" "bit ?v' (16 + i)" "\<not> bit ?v0 (16 + i)"
        by (simp_all add: covered_low_def)
      then show ?thesis by (rule that)
    next
      assume "covered_high i ?v' \<and> \<not> covered_high i ?v0"
      then have "16 \<le> 24 + i" "bit ?v' (24 + i)" "\<not> bit ?v0 (24 + i)"
        by (simp_all add: covered_high_def)
      then show ?thesis by (rule that)
    qed
    then have "?v' \<noteq> ?v1"
      by (auto simp: ticked(2))
    with P show ?thesis
      by (simp add: v' countdown_def)
  qed
  have still: "?v' = ?v1" if nn: "\<not> ?newly"
  proof (rule ccontr)
    assume "?v' \<noteq> ?v1"
    with P obtain k where k: "16 \<le> k" "bit ?v' k" "\<not> bit ?v1 k"
      by (auto simp: v')
    from k(1,2,3) have "\<exists>j<4. (k = 16 + (0 + j) \<and> AI_MIN (analog_in r ! j) \<le> 2) \<or>
                (k = 24 + (0 + j) \<and> AI_MAX (analog_in r ! j) \<ge> 4090)"
      unfolding v' by (simp add: scan_high_bits n)
    then obtain j where j: "j < 4" "k = 16 + j \<or> k = 24 + j"
      by auto
    from k(1,3) have "\<not> bit ?v0 k"
      by (simp add: ticked(2))
    with j k(2) have "(covered_low j ?v' \<and> \<not> covered_low j ?v0) \<or>
                      (covered_high j ?v' \<and> \<not> covered_high j ?v0)"
      by (auto simp: covered_low_def covered_high_def)
    with j(1) nn show False
      by blast
  qed
  have fin: "(\<forall>i<4. covered_low i ?v' \<and> covered_high i ?v') \<and> countdown ?v' = 0"
    if "?v' = 0x0F0F0000"
    unfolding that covered_low_def covered_high_def countdown_def
    using done_value by blast
  have core: "\<exists>r'. under_test (sensorsCoreCB m s) = Some r' \<and>
           (\<forall>i<4. AI_MIN (analog_in r' ! i) =
                     min (AI_MIN (analog_in r ! i)) (int16 (uint (analog_input m ! i))) \<and>
                   AI_MAX (analog_in r' ! i) =
                     max (AI_MAX (analog_in r ! i)) (int16 (uint (analog_input m ! i))))"
    if c: "current_step s = TEST_ANALOG_INPUT_PORTS" and l: "length (analog_input m) = 4"
  proof -
    from u c have "under_test (sensorsCoreCB m s) =
        Some (r\<lparr>analog_in := update_analog 0 (analog_input m) (analog_in r)\<rparr>)"
      by (simp add: sensorsCoreCB_def set_robot_def)
    moreover have "AI_MIN (update_analog 0 (analog_input m) (analog_in r) ! i) =
                     min (AI_MIN (analog_in r ! i)) (int16 (uint (analog_input m ! i))) \<and>
                   AI_MAX (update_analog 0 (analog_input m) (analog_in r) ! i) =
                     max (AI_MAX (analog_in r ! i)) (int16 (uint (analog_input m ! i)))"
      if "i < 4" for i
      using that n l update_analog_min_max [of i "analog_in r" 0 "analog_input m"] by simp
    ultimately show ?thesis
      by simp
  qed
  have A: "\<forall>i<4. covered_low i ?v' =
                 (covered_low i ?v0 \<or> AI_MIN (analog_in r ! i) \<le> A_INPUT_MIN_THRESHOLD)"
    using low by simp
  have B: "\<forall>i<4. covered_high i ?v' =
                 (covered_high i ?v0 \<or> AI_MAX (analog_in r ! i) \<ge> A_INPUT_MAX_THRESHOLD)"
    using high by simp
  have C: "countdown ?v1 = (if countdown ?v0 > 0 then countdown ?v0 - 1 else 0)"
    by (rule ticked(1))
  have D: "?newly \<longrightarrow> countdown ?v' = countdown ?v1 OR frequency"
    by (rule impI) (rule pulse)
  have E: "\<not> ?newly \<longrightarrow> ?v' = ?v1"
    by (rule impI) (rule still)
  have F: "fst ?res = (?v' = 0x0F0F0000)"
    using R(2) by (simp only: v')
  have G: "fst ?res \<longrightarrow>
           (\<forall>i<4. covered_low i ?v' \<and> covered_high i ?v') \<and> countdown ?v' = 0 \<and>
           robot_ok A_INPUT (snd ?res) \<and> current_step (snd ?res) = Suc (current_step s)"
  proof
    assume f: "fst ?res"
    with F have "?v' = 0x0F0F0000" by simp
    from fin [OF this] f R(3,4) show "(\<forall>i<4. covered_low i ?v' \<and> covered_high i ?v') \<and>
           countdown ?v' = 0 \<and>
           robot_ok A_INPUT (snd ?res) \<and> current_step (snd ?res) = Suc (current_step s)"
      by simp
  qed
  have H: "\<not> fst ?res \<longrightarrow>
           robot_ok A_INPUT (snd ?res) = device_ok r A_INPUT \<and>
           current_step (snd ?res) = current_step s"
    using R(3,4) by simp
  have I: "current_step s = TEST_ANALOG_INPUT_PORTS \<longrightarrow> length (analog_input m) = 4 \<longrightarrow>
        (\<exists>r'. under_test (sensorsCoreCB m s) = Some r' \<and>
           (\<forall>i<4. AI_MIN (analog_in r' ! i) =
                     min (AI_MIN (analog_in r ! i)) (int16 (uint (analog_input m ! i))) \<and>
                   AI_MAX (analog_in r' ! i) =
                     max (AI_MAX (analog_in r ! i)) (int16 (uint (analog_input m ! i)))))"
    by (intro impI) (rule core)
  from A B C D E F G H I show ?thesis
    unfolding Let_def by (intro conjI) assumption+
qed


text \<open>
  On the first call with only the first channel at its lower limit, that channel is
  marked and the pulse starts at 20 ticks: the step is not complete. With every channel
  covered both ways and one tick left, the call completes the step. A telemetry message
  updates each channel's running minimum and maximum.
\<close>

theorem analog_threshold_scan_witness:
  "under_test (node_at TEST_ANALOG_INPUT_PORTS (analog_robot 0 1 2000 2000)) =
     Some (analog_robot 0 1 2000 2000) \<and>
   length (analog_in (analog_robot 0 1 2000 2000)) = 4 \<and>
   robot_val A_INPUT
     (snd (testAnalogIn True (node_at TEST_ANALOG_INPUT_PORTS (analog_robot 0 1 2000 2000)))) =
     0x00010014 \<and>
   \<not> fst (testAnalogIn True (node_at TEST_ANALOG_INPUT_PORTS (analog_robot 0 1 2000 2000))) \<and>
   under_test (node_at TEST_ANALOG_INPUT_PORTS (analog_robot 0x0F0F0001 0 0 4095)) =
     Some (analog_robot 0x0F0F0001 0 0 4095) \<and>
   length (analog_in (analog_robot 0x0F0F0001 0 0 4095)) = 4 \<and>
   fst (testAnalogIn False (node_at TEST_ANALOG_INPUT_PORTS (analog_robot 0x0F0F0001 0 0 4095))) \<and>
   robot_ok A_INPUT
     (snd (testAnalogIn False (node_at TEST_ANALOG_INPUT_PORTS (analog_robot 0x0F0F0001 0 0 4095)))) \<and>
   current_step
     (snd (testAnalogIn False (node_at TEST_ANALOG_INPUT_PORTS (analog_robot 0x0F0F0001 0 0 4095)))) =
     EVALUATION_COMPLETED \<and>
   current_step (node_at TEST_ANALOG_INPUT_PORTS (analog_robot 0 1 2000 2000)) =
     TEST_ANALOG_INPUT_PORTS \<and>
   length (analog_input (SensorState (0, 0) 0 0 [0, 4095, 2000, 2000])) = 4 \<and>
   map AI_MIN (case under_test (sensorsCoreCB (SensorState (0, 0) 0 0 [0, 4095, 2000, 2000])
                   (node_at TEST_ANALOG_INPUT_PORTS (analog_robot 0 1 2000 2000))) of
                 None \<Rightarrow> [] | Some r' \<Rightarrow> analog_in r') = [0, 2000, 2000, 2000] \<and>
   map AI_MAX (case under_test (sensorsCoreCB (SensorState (0, 0) 0 0 [0, 4095, 2000, 2000])
                   (node_at TEST_ANALOG_INPUT_PORTS (analog_robot 0 1 2000 2000))) of
                 None \<Rightarrow> [] | Some r' \<Rightarrow> analog_in r') = [2000, 4095, 2000, 2000]"
proof -
  let ?a = "analog_robot 0 1 2000 2000" and ?b = "analog_robot 0x0F0F0001 0 0 4095"
  let ?sa = "node_at TEST_ANALOG_INPUT_PORTS ?a" and ?sb = "node_at TEST_ANALOG_INPUT_PORTS ?b"
  let ?m = "SensorState (0, 0) 0 0 [0, 4095, 2000, 2000]"
  have h: "under_test ?sa = Some ?a" "length (analog_in ?a) = 4"
    "under_test ?sb = Some ?b" "length (analog_in ?b) = 4"
    by (simp_all add: node_at_def analog_robot_def)
  note ev = testAnalogIn_def analog_channel_def node_at_def analog_robot_def QNode_init_def
    new_Robot_def robot_val_def state_defs Let_def
  have va: "robot_val A_INPUT (snd (testAnalogIn True ?sa)) = 0x00010014"
    by (simp add: ev numeral_3_eq_3)
  have vb: "robot_val A_INPUT (snd (testAnalogIn False ?sb)) = 0x0F0F0000"
    by (simp add: ev numeral_3_eq_3)
  note Ta = analog_threshold_scan [OF h(1,2), of True ?m, unfolded Let_def]
  note Tb = analog_threshold_scan [OF h(3,4), of False ?m, unfolded Let_def]
  note Fa = Ta [THEN conjunct1, THEN conjunct2, THEN conjunct2, THEN conjunct2, THEN conjunct2,
      THEN conjunct2, THEN conjunct1]
  note Fb = Tb [THEN conjunct1, THEN conjunct2, THEN conjunct2, THEN conjunct2, THEN conjunct2,
      THEN conjunct2, THEN conjunct1]
  note Gb = Tb [THEN conjunct1, THEN conjunct2, THEN conjunct2, THEN conjunct2, THEN conjunct2,
      THEN conjunct2, THEN conjunct2, THEN conjunct1]
  from Fa va have na: "\<not> fst (testAnalogIn True ?sa)"
    by simp
  from Fb vb have fb: "fst (testAnalogIn False ?sb)"
    by simp
  from Gb fb have gb: "robot_ok A_INPUT (snd (testAnalogIn False ?sb))"
    "current_step (snd (testAnalogIn False ?sb)) = EVALUATION_COMPLETED"
    by (simp_all add: node_at_def QNode_init_def)
  have c: "current_step ?sa = TEST_ANALOG_INPUT_PORTS" "length (analog_input ?m) = 4"
    "map AI_MIN (case under_test (sensorsCoreCB ?m ?sa) of
                 None \<Rightarrow> [] | Some r' \<Rightarrow> analog_in r') = [0, 2000, 2000, 2000]"
    "map AI_MAX (case under_test (sensorsCoreCB ?m ?sa) of
                 None \<Rightarrow> [] | Some r' \<Rightarrow> analog_in r') = [2000, 4095, 2000, 2000]"
    by (simp_all add: sensorsCoreCB_def node_at_def analog_robot_def QNode_init_def new_Robot_def
        set_robot_def int16_def numeral_3_eq_3)
  from h va na fb gb c show ?thesis
    by (intro conjI) assumption+
qed

section \<open>Identification and the ledger of evaluated units\<close>

text \<open>
  The identity of a session is its ledger together with the serial, the device id and
  the identification flag of the unit under test. Only the identification callback, the
  lifecycle callback and the terminal step change it.
\<close>


lemma identity_basic [simp]:
  "identity (emit x s) = identity s"
  "identity (log_line l m s) = identity s"
  "identity (showUserMsg l a b s) = identity s"
  "identity (hideUserMsg s) = identity s"
  "identity (step_pp s) = identity s"
  "identity (move v w t bl s) = identity s"
  "identity (s\<lparr>answer_req := q\<rparr>) = identity s"
  "identity (s\<lparr>timer_active := q\<rparr>) = identity s"
  "identity (s\<lparr>timer := tm\<rparr>) = identity s"
  "identity (s\<lparr>count := n\<rparr>) = identity s"
  "identity (s\<lparr>previous_step := p\<rparr>) = identity s"
  "identity (s\<lparr>current_step := p\<rparr>) = identity s"
  "identity (s\<lparr>outputs := os\<rparr>) = identity s"
  by (simp_all add: identity_def state_defs move_def Let_def)

text \<open>The part of a record that identifies it.\<close>

lemma identity_set_robot:
  "under_test s = Some r \<Longrightarrow> serial r' = serial r \<Longrightarrow> u_dev_id r' = u_dev_id r \<Longrightarrow>
   device_ok r' V_INFO = device_ok r V_INFO \<Longrightarrow> identity (set_robot r' s) = identity s"
  by (simp add: identity_def set_robot_def)

lemma identity_button: "identity (buttonEventCB m s) = identity s"
  by (simp add: buttonEventCB_def identity_def state_defs Let_def button_dev_def
      split: option.split)

lemma identity_callbacks:
  "identity (sensorsCoreCB m2 s) = identity s"
  "identity (dockBeaconCB m3 s) = identity s"
  "identity (gyroscopeCB m4 s) = identity s"
  "identity (bumperEventCB m5 s) = identity s"
  "identity (wDropEventCB m6 s) = identity s"
  "identity (cliffEventCB m7 s) = identity s"
  "identity (powerEventCB m8 s) = identity s"
  "identity (inputEventCB m9 s) = identity s"
  "identity (diagnosticsCB m10 s) = identity s"
  "identity (robotStatusCB m11 s) = identity s"
  "identity (timer_fires s) = identity s"
  by (simp_all add: sensorsCoreCB_def dockBeaconCB_def gyroscopeCB_def bumperEventCB_def
      wDropEventCB_def cliffEventCB_def powerEventCB_def inputEventCB_def diagnosticsCB_def
      robotStatusCB_def timer_fires_def timerEventCB_def move_def
      identity_def state_defs Let_def bumper_dev_def wheel_dev_def cliff_dev_def power_dev_def
      split: option.split prod.split)

lemma identity_fold:
  "(\<And>x s. identity (f x s) = identity s) \<Longrightarrow> identity (fold f xs s) = identity s"
  by (induction xs arbitrary: s) simp_all

lemma identity_testLeds: "identity (testLeds b s) = identity s"
proof -
  have "identity (testLeds_loop b cs s) = identity s" for cs s
    by (induction cs arbitrary: s) simp_all
  then show ?thesis
    by (simp add: testLeds_def)
qed

lemma identity_testSounds: "identity (testSounds b s) = identity s"
proof -
  have "identity (testSounds_loop b cs s) = identity s" for cs s
    by (induction cs arbitrary: s) simp_all
  then show ?thesis
    by (simp add: testSounds_def)
qed

lemma identity_poll_camera: "identity (snd (poll_camera env i j s)) = identity s"
proof (induction env i j s rule: poll_camera.induct)
  case (1 env i j s)
  show ?case
  proof (cases "j < 80")
    case False
    then show ?thesis
      by (simp add: poll_camera.simps [of env i j s])
  next
    case True
    show ?thesis
    proof (cases "camera_yaw env i j")
      case None
      with True "1.IH" [OF True refl None] show ?thesis
        by (simp add: poll_camera.simps [of env i j s] identity_fold identity_callbacks)
    next
      case (Some y)
      with True show ?thesis
        by (simp add: poll_camera.simps [of env i j s] identity_fold identity_callbacks)
    qed
  qed
qed

lemma identity_wait_charging: "identity (wait_charging env i s) = identity s"
proof (induction env i s rule: wait_charging.induct)
  case (1 env i s)
  show ?case
  proof (cases "int i < 40 * frequency \<and> robot_val CHARGING s = 0")
    case False
    then show ?thesis
      by (auto simp: wait_charging.simps [of env i s])
  next
    case True
    with "1.IH" [OF True] show ?thesis
      by (simp add: wait_charging.simps [of env i s] identity_fold identity_callbacks)
  qed
qed

lemma identity_imu_leg: "identity (snd (imu_leg env i s)) = identity s"
proof -
  obtain res s1 where p: "poll_camera env i 0 s = (res, s1)"
    by (cases "poll_camera env i 0 s")
  with identity_poll_camera [of env i 0 s] have i1: "identity s1 = identity s"
    by simp
  show ?thesis
  proof (cases res)
    case None
    with p i1 show ?thesis
      by (simp add: imu_leg_def)
  next
    case (Some vo)
    show ?thesis
    proof (cases "under_test s1")
      case None
      with Some p i1 show ?thesis
        by (simp add: imu_leg_def)
    next
      case (Some r)
      with \<open>res = Some vo\<close> p have
        "identity (snd (imu_leg env i s)) = identity (log_line Info
           ''Gyroscope test %d result: imu yaw = %.3f / vo yaw = %.3f / diff = %.3f'' s1)"
        by (simp add: imu_leg_def Let_def identity_def set_robot_def set_val_def move_def emit_def
            log_line_def)
      with i1 show ?thesis
        by simp
    qed
  qed
qed

lemma identity_testIMU: "identity (snd (testIMU b env s)) = identity s"
proof -
  let ?s0 = "if b then showUserMsg Info ''Gyroscope test''
                       ''Place the robot with the check board right below the camera'' s
             else s"
  have i0: "identity ?s0 = identity s"
    by simp
  obtain ok0 s1 where l0: "imu_leg env 0 ?s0 = (ok0, s1)"
    by (cases "imu_leg env 0 ?s0")
  with identity_imu_leg [of env 0 ?s0] i0 have i1: "identity s1 = identity s"
    by simp
  obtain ok1 s2 where l1: "imu_leg env 1 s1 = (ok1, s2)"
    by (cases "imu_leg env 1 s1")
  with identity_imu_leg [of env 1 s1] i1 have i2: "identity s2 = identity s"
    by simp
  have r: "identity (set_robot (set_ok IMU_DEV True r) (log_line l m s2)) = identity s2"
    if "under_test s2 = Some r" for r l m
    using that by (simp add: identity_def set_robot_def set_ok_def log_line_def emit_def)
  show ?thesis
    using l0 l1 i1 i2 r
    by (cases "imu_init env"; cases ok0; cases ok1; cases "under_test s2")
      (simp_all add: testIMU_def)
qed

lemma identity_measureCharge: "identity (snd (measureCharge b env s)) = identity s"
proof -
  have w: "identity (charge_waited b env s) = identity s"
    by (simp add: charge_waited_def identity_wait_charging)
  then have m: "identity (charge_measured b env s) = identity s"
    by (simp add: charge_measured_def charge_settled_def identity_fold identity_callbacks)
  have r: "identity (set_robot (set_ok CHARGING True (set_val CHARGING v r))
                      (log_line l t (charge_measured b env s))) =
           identity (charge_measured b env s)"
         "identity (set_robot (set_val CHARGING v r) (log_line l t (charge_measured b env s))) =
           identity (charge_measured b env s)"
    if "under_test (charge_measured b env s) = Some r" for r l t v
    using that
    by (simp_all add: identity_def set_robot_def set_ok_def set_val_def log_line_def emit_def)
  show ?thesis
  proof (cases "under_test (charge_measured b env s)")
    case None
    with w m show ?thesis
      by (simp add: measureCharge_def Let_def)
  next
    case (Some r0)
    from r [OF Some] w m Some show ?thesis
      by (simp add: measureCharge_def Let_def)
  qed
qed

lemma identity_testAnalogIn: "identity (snd (testAnalogIn b s)) = identity s"
  by (cases "under_test s")
    (simp_all add: testAnalogIn_def Let_def identity_def state_defs)

lemma identity_evalMotors: "identity (evalMotorsCurrent b s) = identity s"
  by (simp add: evalMotorsCurrent_def Let_def identity_def state_defs split: option.split)

lemma under_test_basic [simp]:
  "under_test (emit x s) = under_test s"
  "under_test (log_line l m s) = under_test s"
  "under_test (showUserMsg l a b s) = under_test s"
  "under_test (hideUserMsg s) = under_test s"
  "under_test (step_pp s) = under_test s"
  "under_test (move v w t bl s) = under_test s"
  by (simp_all add: state_defs move_def Let_def)

lemma identity_set_val [simp]:
  "under_test s = Some r \<Longrightarrow> identity (set_robot (set_val d v r) s) = identity s"
  by (simp add: identity_def set_robot_def set_val_def)

lemma identity_step_action:
  assumes "under_test s = Some r" and "current_step s \<noteq> EVALUATION_COMPLETED"
  shows "identity (step_action env b r s) = identity s"
  using assms
  by (simp add: step_action_def Let_def identity_testLeds identity_testSounds identity_testIMU
      identity_measureCharge identity_testAnalogIn identity_evalMotors)

lemma identity_run_body:
  assumes "current_step s \<noteq> EVALUATION_COMPLETED"
  shows "identity (run_body env s) = identity s"
proof (cases "under_test s")
  case None
  then show ?thesis
    by (simp add: run_body_def)
next
  case (Some r)
  let ?s1 = "s\<lparr>count := count s + 1, previous_step := current_step s\<rparr>"
  have "identity (step_action env b r ?s1) = identity ?s1" for b
    using Some assms by (intro identity_step_action) simp_all
  with Some show ?thesis
    by (simp add: run_body_def Let_def)
qed

lemma run_body_completed:
  assumes "current_step s = EVALUATION_COMPLETED"
  shows "under_test (run_body env s) = None \<or> identity (run_body env s) = identity s"
  using assms
  by (cases "under_test s"; cases "timer_active s")
    (simp_all add: run_body_def step_action_def Let_def saveResults_def state_defs)

lemma fresh_by_identity:
  "identity s' = identity s \<Longrightarrow> identified_fresh s' = identified_fresh s"
  by (auto simp: identity_def identified_fresh_def split: option.splits)

lemma fresh_none: "under_test s = None \<Longrightarrow> identified_fresh s"
  by (simp add: identified_fresh_def)

lemma fresh_versionInfo: "identified_fresh s \<Longrightarrow> identified_fresh (versionInfoCB m s)"
  by (cases "under_test s")
    (auto simp: versionInfoCB_def identified_fresh_def Let_def setSerial_def state_defs)

lemma fresh_robotEvent: "identified_fresh s \<Longrightarrow> identified_fresh (robotEventCB m s)"
  by (cases "under_test s")
    (simp_all add: robotEventCB_def identified_fresh_def Let_def saveResults_def state_defs
      new_Robot_def)

lemma fresh_dispatch: "identified_fresh s \<Longrightarrow> identified_fresh (dispatch e s)"
proof (cases e)
  case (EvLoop env)
  assume f: "identified_fresh s"
  show ?thesis
  proof (cases "current_step s = EVALUATION_COMPLETED")
    case True
    from run_body_completed [OF True, of env] show ?thesis
    proof
      assume "under_test (run_body env s) = None"
      then show ?thesis
        unfolding EvLoop by (simp add: fresh_none)
    next
      assume "identity (run_body env s) = identity s"
      from fresh_by_identity [OF this] f show ?thesis
        unfolding EvLoop by simp
    qed
  next
    case False
    from fresh_by_identity [OF identity_run_body [OF False, of env]] f show ?thesis
      unfolding EvLoop by simp
  qed
qed (simp_all add: fresh_versionInfo fresh_robotEvent
       fresh_by_identity [OF identity_button] fresh_by_identity [OF identity_callbacks(1)]
       fresh_by_identity [OF identity_callbacks(2)] fresh_by_identity [OF identity_callbacks(3)]
       fresh_by_identity [OF identity_callbacks(4)] fresh_by_identity [OF identity_callbacks(5)]
       fresh_by_identity [OF identity_callbacks(6)] fresh_by_identity [OF identity_callbacks(7)]
       fresh_by_identity [OF identity_callbacks(8)] fresh_by_identity [OF identity_callbacks(9)]
       fresh_by_identity [OF identity_callbacks(10)] fresh_by_identity [OF identity_callbacks(11)])

lemma reachable_fresh: "reachable s \<Longrightarrow> identified_fresh s"
proof (induction rule: reachable.induct)
  case init
  show ?case
    by (simp add: identified_fresh_def QNode_init_def)
next
  case (step s e)
  then show ?case
    by (simp only: fresh_dispatch)
qed


lemma idle_dispatch:
  assumes "under_test s = None" and "\<not> is_online e"
  shows "under_test (dispatch e s) = None \<and> evaluated (dispatch e s) = evaluated s \<and>
         out_file (dispatch e s) = out_file s"
  using assms
  by (cases e)
    (simp_all add: cb_defs dockBeaconCB_def gyroscopeCB_def robotEventCB_def timer_fires_def
      timerEventCB_def run_body_def move_def is_online_def state_defs Let_def
      split: option.split)

lemma idle_run:
  "under_test s = None \<Longrightarrow> no_online es \<Longrightarrow>
   under_test (run_events es s) = None \<and> evaluated (run_events es s) = evaluated s \<and>
   out_file (run_events es s) = out_file s"
proof (induction es arbitrary: s)
  case Nil
  then show ?case by (simp add: run_events_def)
next
  case (Cons e es)
  from Cons.prems have e: "\<not> is_online e" and es: "no_online es"
    by (simp_all add: no_online_def)
  note d = idle_dispatch [OF Cons.prems(1) e]
  from Cons.IH [OF d [THEN conjunct1] es] d show ?case
    by (simp add: run_events_def)
qed

lemma reachable_run: "reachable s \<Longrightarrow> reachable (run_events es s)"
proof (induction es arbitrary: s)
  case Nil
  then show ?case by (simp add: run_events_def)
next
  case (Cons e es)
  from Cons.IH [OF reachable.step [OF Cons.prems, of e]] show ?case
    by (simp add: run_events_def)
qed

lemma versionInfo_rejects:
  assumes u: "under_test s = Some r" and f: "identified_fresh s"
    and k: "evaluated_get (evaluated s) (udid m) \<noteq> None"
  shows "under_test (versionInfoCB m s) = None \<and> evaluated (versionInfoCB m s) = evaluated s \<and>
         out_file (versionInfoCB m s) = out_file s \<and>
         last (outputs (versionInfoCB m s)) =
           ShowUserMsg Error ''Known robot''
             ''Robot %s has been previously evaluated. Proceed with a new robot''"
proof -
  have n: "\<not> (device_ok r V_INFO \<and> udid m = u_dev_id r)"
  proof
    assume a: "device_ok r V_INFO \<and> udid m = u_dev_id r"
    with u f have "evaluated_get (evaluated s) (udid m) = None"
      by (simp add: identified_fresh_def)
    with k show False by simp
  qed
  from u n k show ?thesis
    by (cases "device_ok r V_INFO")
      (simp_all add: versionInfoCB_def Let_def setSerial_def state_defs)
qed

text \<open>
  C3. Duplicate-serial rejection. In every reachable state with a unit under test, an
  identification message whose serial is already in the ledger of evaluated units
  discards the current record, surfaces the error message ``Known robot'', and leaves
  the ledger and the result sink as they were; from then on, whatever events arrive,
  no unit is under test and ledger and sink stay unchanged as long as no ``unit
  online'' event is among them.
\<close>

theorem duplicate_serial_rejected:
  assumes "reachable s" and "under_test s = Some r"
    and "evaluated_get (evaluated s) (udid m) \<noteq> None"
  shows "under_test (versionInfoCB m s) = None \<and>
         evaluated (versionInfoCB m s) = evaluated s \<and>
         out_file (versionInfoCB m s) = out_file s \<and>
         last (outputs (versionInfoCB m s)) =
           ShowUserMsg Error ''Known robot''
             ''Robot %s has been previously evaluated. Proceed with a new robot'' \<and>
         (\<forall>es. no_online es \<longrightarrow>
            under_test (run_events es (versionInfoCB m s)) = None \<and>
            evaluated (run_events es (versionInfoCB m s)) = evaluated s \<and>
            out_file (run_events es (versionInfoCB m s)) = out_file s)"
proof -
  note v = versionInfo_rejects [OF assms(2) reachable_fresh [OF assms(1)] assms(3)]
  have "under_test (run_events es (versionInfoCB m s)) = None \<and>
        evaluated (run_events es (versionInfoCB m s)) = evaluated s \<and>
        out_file (run_events es (versionInfoCB m s)) = out_file s" if "no_online es" for es
    using idle_run [OF v [THEN conjunct1] that] v by simp
  with v show ?thesis
    by blast
qed

theorem duplicate_serial_rejected_witness:
  "reachable second_unit_online \<and>
   under_test second_unit_online = Some (new_Robot 1) \<and>
   length (evaluated second_unit_online) = 1 \<and> length (out_file second_unit_online) = 1 \<and>
   evaluated_get (evaluated second_unit_online) (udid known_unit) \<noteq> None \<and>
   under_test (versionInfoCB known_unit second_unit_online) = None \<and>
   length (evaluated (versionInfoCB known_unit second_unit_online)) = 1 \<and>
   length (out_file (versionInfoCB known_unit second_unit_online)) = 1 \<and>
   no_online [EvButton (ButtonEvent Button0 PRESSED), EvLoop quiet_env, EvTimer,
              EvVersionInfo known_unit] \<and>
   under_test
     (run_events [EvButton (ButtonEvent Button0 PRESSED), EvLoop quiet_env, EvTimer,
                  EvVersionInfo known_unit]
        (versionInfoCB known_unit second_unit_online)) = None"
proof -
  have r: "reachable second_unit_online"
    unfolding second_unit_online_def by (rule reachable_run) (rule reachable.init)
  have s: "under_test second_unit_online = Some (new_Robot 1)"
    "length (evaluated second_unit_online) = 1" "length (out_file second_unit_online) = 1"
    "evaluated_get (evaluated second_unit_online) (udid known_unit) \<noteq> None"
    by (simp_all add: second_unit_online_def known_unit_def run_events_def robotEventCB_def
        versionInfoCB_def saveResults_def evaluated_get_def setSerial_def QNode_init_def
        new_Robot_def all_ok_def all_devices_def state_defs Let_def)
  have n: "no_online [EvButton (ButtonEvent Button0 PRESSED), EvLoop quiet_env, EvTimer,
              EvVersionInfo known_unit]"
    by (simp add: no_online_def is_online_def)
  note T = duplicate_serial_rejected [OF r s(1) s(4)]
  from T have a: "under_test (versionInfoCB known_unit second_unit_online) = None"
    and b: "evaluated (versionInfoCB known_unit second_unit_online) = evaluated second_unit_online"
    and c: "out_file (versionInfoCB known_unit second_unit_online) = out_file second_unit_online"
    by simp_all
  from T n have d: "under_test
     (run_events [EvButton (ButtonEvent Button0 PRESSED), EvLoop quiet_env, EvTimer,
                  EvVersionInfo known_unit]
        (versionInfoCB known_unit second_unit_online)) = None"
    by blast
  from r s n a d show ?thesis
    unfolding b c by (intro conjI) assumption+
qed


section \<open>The evolution of the current step\<close>

lemma step_basic [simp]:
  "current_step (emit x s) = current_step s"
  "current_step (log_line l m s) = current_step s"
  "current_step (showUserMsg l a b s) = current_step s"
  "current_step (hideUserMsg s) = current_step s"
  "current_step (set_robot r s) = current_step s"
  "current_step (move v w t bl s) = current_step s"
  "current_step (saveResults s) = current_step s"
  "current_step (step_pp s) = Suc (current_step s)"
  by (simp_all add: state_defs move_def saveResults_def Let_def split: option.split)

lemma step_callbacks:
  "current_step (versionInfoCB m1 s) = current_step s"
  "current_step (sensorsCoreCB m2 s) = current_step s"
  "current_step (dockBeaconCB m3 s) = current_step s"
  "current_step (gyroscopeCB m4 s) = current_step s"
  "current_step (diagnosticsCB m10 s) = current_step s"
  "current_step (robotStatusCB m11 s) = current_step s"
  by (simp_all add: versionInfoCB_def sensorsCoreCB_def dockBeaconCB_def gyroscopeCB_def
      diagnosticsCB_def robotStatusCB_def Let_def split: option.split prod.split)

lemma step_event_callbacks:
  "step_evolves s (buttonEventCB m0 s)"
  "step_evolves s (bumperEventCB m5 s)"
  "step_evolves s (wDropEventCB m6 s)"
  "step_evolves s (cliffEventCB m7 s)"
  "step_evolves s (powerEventCB m8 s)"
  "step_evolves s (inputEventCB m9 s)"
  "step_evolves s (timer_fires s)"
  by (simp_all add: step_evolves_def buttonEventCB_def bumperEventCB_def wDropEventCB_def
      cliffEventCB_def powerEventCB_def inputEventCB_def timer_fires_def timerEventCB_def
      Let_def split: option.split prod.split)


lemma step_fold:
  "(\<And>x s. current_step (f x s) = current_step s) \<Longrightarrow>
   current_step (fold f xs s) = current_step s"
  by (induction xs arbitrary: s) simp_all

lemma step_testLeds: "current_step (testLeds b s) = current_step s"
proof -
  have "current_step (testLeds_loop b cs s) = current_step s" for cs s
    by (induction cs arbitrary: s) simp_all
  then show ?thesis
    by (simp add: testLeds_def)
qed

lemma step_testSounds: "current_step (testSounds b s) = current_step s"
proof -
  have "current_step (testSounds_loop b cs s) = current_step s" for cs s
    by (induction cs arbitrary: s) simp_all
  then show ?thesis
    by (simp add: testSounds_def)
qed

lemma step_poll_camera: "current_step (snd (poll_camera env i j s)) = current_step s"
proof (induction env i j s rule: poll_camera.induct)
  case (1 env i j s)
  show ?case
  proof (cases "j < 80")
    case False
    then show ?thesis
      by (simp add: poll_camera.simps [of env i j s])
  next
    case True
    show ?thesis
    proof (cases "camera_yaw env i j")
      case None
      with True "1.IH" [OF True refl None] show ?thesis
        by (simp add: poll_camera.simps [of env i j s] step_fold step_callbacks)
    next
      case (Some y)
      with True show ?thesis
        by (simp add: poll_camera.simps [of env i j s] step_fold step_callbacks)
    qed
  qed
qed

lemma step_wait_charging: "current_step (wait_charging env i s) = current_step s"
proof (induction env i s rule: wait_charging.induct)
  case (1 env i s)
  show ?case
  proof (cases "int i < 40 * frequency \<and> robot_val CHARGING s = 0")
    case False
    then show ?thesis
      by (auto simp: wait_charging.simps [of env i s])
  next
    case True
    with "1.IH" [OF True] show ?thesis
      by (simp add: wait_charging.simps [of env i s] step_fold step_callbacks)
  qed
qed

lemma step_imu_leg: "current_step (snd (imu_leg env i s)) = current_step s"
proof -
  obtain res s1 where p: "poll_camera env i 0 s = (res, s1)"
    by (cases "poll_camera env i 0 s")
  with step_poll_camera [of env i 0 s] have "current_step s1 = current_step s"
    by simp
  with p show ?thesis
    by (cases res; cases "under_test s1") (simp_all add: imu_leg_def Let_def)
qed

lemma step_testIMU: "current_step (snd (testIMU b env s)) = current_step s"
proof -
  let ?s0 = "if b then showUserMsg Info ''Gyroscope test''
                       ''Place the robot with the check board right below the camera'' s
             else s"
  have i0: "current_step ?s0 = current_step s"
    by simp
  obtain ok0 s1 where l0: "imu_leg env 0 ?s0 = (ok0, s1)"
    by (cases "imu_leg env 0 ?s0")
  with step_imu_leg [of env 0 ?s0] i0 have i1: "current_step s1 = current_step s"
    by simp
  obtain ok1 s2 where l1: "imu_leg env 1 s1 = (ok1, s2)"
    by (cases "imu_leg env 1 s1")
  with step_imu_leg [of env 1 s1] i1 have i2: "current_step s2 = current_step s"
    by simp
  show ?thesis
    using l0 l1 i1 i2
    by (cases "imu_init env"; cases ok0; cases ok1; cases "under_test s2")
      (simp_all add: testIMU_def)
qed

lemma step_measureCharge: "current_step (snd (measureCharge b env s)) = current_step s"
proof -
  have w: "current_step (charge_waited b env s) = current_step s"
    by (simp add: charge_waited_def step_wait_charging)
  then have m: "current_step (charge_measured b env s) = current_step s"
    by (simp add: charge_measured_def charge_settled_def step_fold step_callbacks)
  from w m show ?thesis
    by (cases "under_test (charge_measured b env s)") (simp_all add: measureCharge_def Let_def)
qed

lemma step_testAnalogIn:
  "current_step (snd (testAnalogIn b s)) = current_step s \<or>
   current_step (snd (testAnalogIn b s)) = Suc (current_step s)"
  by (cases "under_test s") (simp_all add: testAnalogIn_def Let_def)

lemma step_evalMotors: "current_step (evalMotorsCurrent b s) = current_step s"
  by (simp add: evalMotorsCurrent_def Let_def split: option.split)

lemma step_step_action: "step_evolves s (step_action env b r s)"
proof (cases "current_step s = TEST_ANALOG_INPUT_PORTS")
  case True
  with step_testAnalogIn [of b s] show ?thesis
    by (auto simp: step_evolves_def step_action_def Let_def)
next
  case False
  then show ?thesis
    by (simp add: step_evolves_def step_action_def Let_def step_testLeds step_testSounds
        step_testIMU step_measureCharge step_evalMotors)
qed

lemma step_run_body: "step_evolves s (run_body env s)"
proof (cases "under_test s")
  case None
  then show ?thesis
    by (simp add: run_body_def step_evolves_def)
next
  case (Some r)
  let ?s1 = "s\<lparr>count := count s + 1, previous_step := current_step s\<rparr>"
  have "step_evolves ?s1 (step_action env b r ?s1)" for b
    by (rule step_step_action)
  then have "step_evolves s (step_action env b r ?s1)" for b
    by (simp add: step_evolves_def)
  with Some show ?thesis
    by (simp add: run_body_def Let_def step_evolves_def)
qed

lemma step_robotEvent:
  "robot_state m \<noteq> ONLINE \<Longrightarrow> current_step (robotEventCB m s) = current_step s"
  by (simp add: robotEventCB_def split: option.split)

text \<open>
  Every event other than ``unit online'' leaves the current step, advances it by one,
  or takes the terminal step back to the first step.
\<close>

lemma step_dispatch: "\<not> is_online e \<Longrightarrow> step_evolves s (dispatch e s)"
proof (cases e)
  case (EvLoop env)
  then show ?thesis
    by (simp add: step_run_body)
next
  case (EvRobot m)
  assume "\<not> is_online e"
  with EvRobot show ?thesis
    by (simp add: is_online_def step_robotEvent step_evolves_def)
qed (simp_all add: step_event_callbacks, simp_all add: step_evolves_def step_callbacks)

text \<open>
  A ``unit online'' event finalizes the record under test, if there is one, and the new
  record's sequence number is the size of the ledger.
\<close>

lemma online_finalizes:
  assumes "robot_state m = ONLINE"
  shows "evaluated (robotEventCB m s) =
           (case under_test s of None \<Rightarrow> evaluated s | Some r \<Rightarrow> evaluated s @ [r]) \<and>
         map_option seq_nb (under_test (robotEventCB m s)) =
           Some ((length (evaluated (robotEventCB m s)))) \<and>
         current_step (robotEventCB m s) = TEST_DIGITAL_IO_PORTS"
  using assms
  by (cases "under_test s")
    (simp_all add: robotEventCB_def saveResults_def new_Robot_def state_defs Let_def)


text \<open>
  C4. Step-index evolution. The current step moves by single advances and the terminal
  step goes back to the first step (see \<open>step_dispatch\<close>), and a ``unit online'' event
  finalizes the record under test and numbers the new record by the size of the ledger
  (see \<open>online_finalizes\<close>); but the step that ``unit online'' sets is not the beginning
  of the test process, which the comment in \<open>robotEventCB\<close> announces: it is the digital
  I/O step, left there with the note ``TODO INITIALIZATION''. From the initial state the
  step jumps from 0 to 30, past identification and every test before the digital I/O.
\<close>

theorem unit_online_sets_digital_io_step:
  "current_step QNode_init = INITIALIZATION \<and>
   current_step (robotEventCB (RobotStateEvent ONLINE) QNode_init) = TEST_DIGITAL_IO_PORTS \<and>
   TEST_DIGITAL_IO_PORTS \<noteq> INITIALIZATION \<and>
   TEST_DIGITAL_IO_PORTS \<noteq> GET_SERIAL_NUMBER \<and>
   TEST_DIGITAL_IO_PORTS \<noteq> TEST_DC_ADAPTER \<and>
   \<not> step_evolves QNode_init (robotEventCB (RobotStateEvent ONLINE) QNode_init) \<and>
   current_step
     (run_events [EvRobot (RobotStateEvent ONLINE), EvVersionInfo known_unit, EvLoop quiet_env]
        QNode_init) = TEST_DIGITAL_IO_PORTS"
  by (simp add: robotEventCB_def QNode_init_def step_evolves_def state_defs Let_def
      run_events_def versionInfoCB_def known_unit_def new_Robot_def setSerial_def
      evaluated_get_def run_body_def step_action_def)

end
